theory Spec2Isabelle
  imports Complex_Main "HOL-Library.Word" "HOL-Library.Sublist"
begin

section \<open>JavaScript values used by \<open>src/index.js\<close>\<close>

text \<open>
  A JavaScript string is a sequence of UTF-16 code units; \<open>trim\<close>, \<open>split\<close>,
  \<open>parseInt\<close> and \<open>parseFloat\<close> all look at code units, so a string is modelled as
  the list of its code units. \<open>js\<close> embeds an ASCII literal of the source.
\<close>

type_synonym jsstring = "nat list"

definition js :: "string \<Rightarrow> jsstring" where
  "js s = map of_char s"

text \<open>
  A JavaScript number is a double. It is modelled by the mathematical value it denotes:
  a rational, the two infinities, or NaN. Rounding to 53 bits and the sign of zero are
  not modelled.
\<close>

datatype jsnum = NaN | Infinity | NegInfinity | Num rat

fun js_add :: "jsnum \<Rightarrow> jsnum \<Rightarrow> jsnum" where
  "js_add NaN _ = NaN"
| "js_add _ NaN = NaN"
| "js_add Infinity NegInfinity = NaN"
| "js_add NegInfinity Infinity = NaN"
| "js_add Infinity _ = Infinity"
| "js_add _ Infinity = Infinity"
| "js_add NegInfinity _ = NegInfinity"
| "js_add _ NegInfinity = NegInfinity"
| "js_add (Num a) (Num b) = Num (a + b)"

datatype jsval =
    JUndefined
  | JNull
  | JBool bool
  | JNum jsnum
  | JStr jsstring
  | JArr "jsval list"
  | JObj "(jsstring \<times> jsval) list"

text \<open>\<open>!v\<close> is true exactly for the falsy values.\<close>

fun falsy :: "jsval \<Rightarrow> bool" where
  "falsy JUndefined = True"
| "falsy JNull = True"
| "falsy (JBool b) = (\<not> b)"
| "falsy (JNum n) = (n = NaN \<or> n = Num 0)"
| "falsy (JStr s) = (s = [])"
| "falsy (JArr _) = False"
| "falsy (JObj _) = False"

datatype error = TypeError | ENOENT | EISDIR | ENOSPC

subsection \<open>White space and \<open>String.prototype.trim\<close>\<close>

text \<open>
  The code units ECMAScript counts as white space or line terminator:
  TAB, LF, VT, FF, CR, SP, NBSP, U+1680, U+2000..U+200A, LS, PS, U+202F, U+205F,
  U+3000 and the byte order mark U+FEFF.
\<close>

definition is_ws :: "nat \<Rightarrow> bool" where
  "is_ws c \<longleftrightarrow>
     (9 \<le> c \<and> c \<le> 13) \<or> c = 32 \<or> c = 160 \<or> c = 5760 \<or> (8192 \<le> c \<and> c \<le> 8202) \<or>
     c = 8232 \<or> c = 8233 \<or> c = 8239 \<or> c = 8287 \<or> c = 12288 \<or> c = 65279"

definition js_trim :: "jsstring \<Rightarrow> jsstring" where
  "js_trim s = rev (dropWhile is_ws (rev (dropWhile is_ws s)))"

subsection \<open>\<open>String.prototype.split\<close> with a one-character separator\<close>

text \<open>
  \<open>s.split(c)\<close> cuts at every occurrence of \<open>c\<close>; the result is never empty
  (\<open>"".split("\n")\<close> is \<open>[""]\<close>).
\<close>

fun split_on :: "nat \<Rightarrow> jsstring \<Rightarrow> jsstring list" where
  "split_on c [] = [[]]"
| "split_on c (x # xs) =
     (if x = c then [] # split_on c xs
      else (case split_on c xs of [] \<Rightarrow> [[x]] | y # ys \<Rightarrow> (x # y) # ys))"

subsection \<open>\<open>parseInt\<close> and \<open>parseFloat\<close>\<close>

definition is_digit :: "nat \<Rightarrow> bool" where
  "is_digit c \<longleftrightarrow> 48 \<le> c \<and> c \<le> 57"

text \<open>The value of a hexadecimal digit, if the code unit is one.\<close>

definition hex_val :: "nat \<Rightarrow> nat option" where
  "hex_val c =
     (if 48 \<le> c \<and> c \<le> 57 then Some (c - 48)
      else if 97 \<le> c \<and> c \<le> 102 then Some (c - 87)
      else if 65 \<le> c \<and> c \<le> 70 then Some (c - 55)
      else None)"

definition is_radix_digit :: "nat \<Rightarrow> nat \<Rightarrow> bool" where
  "is_radix_digit r c = (case hex_val c of None \<Rightarrow> False | Some v \<Rightarrow> v < r)"

definition radix_val :: "nat \<Rightarrow> jsstring \<Rightarrow> nat" where
  "radix_val r z = foldl (\<lambda>a c. r * a + the (hex_val c)) 0 z"

text \<open>
  \<open>parseInt(s)\<close> without a radix: skip leading white space, take an optional sign, take
  radix 16 after \<open>0x\<close> or \<open>0X\<close> and radix 10 otherwise, and read the longest prefix of
  digits; no digit at all gives NaN, and whatever follows the digits is ignored.
\<close>

definition parseInt :: "jsstring \<Rightarrow> jsnum" where
  "parseInt s =
     (let s1 = dropWhile is_ws s;
          neg = (s1 \<noteq> [] \<and> hd s1 = 45);
          s2 = (if s1 \<noteq> [] \<and> (hd s1 = 43 \<or> hd s1 = 45) then tl s1 else s1);
          hex = (prefix [48, 120] s2 \<or> prefix [48, 88] s2);
          r = (if hex then 16 else 10);
          s3 = (if hex then drop 2 s2 else s2);
          z = takeWhile (is_radix_digit r) s3
      in if z = [] then NaN
         else Num (if neg then - of_nat (radix_val r z) else of_nat (radix_val r z)))"

text \<open>
  The exponent part of a decimal literal: \<open>e\<close> or \<open>E\<close>, an optional sign and at least
  one digit; anything else is no exponent part and counts as exponent 0.
\<close>

definition exponent_part :: "jsstring \<Rightarrow> int" where
  "exponent_part s =
     (if s \<noteq> [] \<and> (hd s = 101 \<or> hd s = 69) then
        (let t = tl s;
             neg = (t \<noteq> [] \<and> hd t = 45);
             u = (if t \<noteq> [] \<and> (hd t = 43 \<or> hd t = 45) then tl t else t);
             ds = takeWhile is_digit u
         in if ds = [] then 0
            else if neg then - int (radix_val 10 ds) else int (radix_val 10 ds))
      else 0)"

definition scale10 :: "rat \<Rightarrow> int \<Rightarrow> rat" where
  "scale10 x e = (if 0 \<le> e then x * 10 ^ nat e else x / 10 ^ nat (- e))"

text \<open>
  \<open>parseFloat(s)\<close>: skip leading white space and read the longest prefix that is a
  decimal literal (optional sign; \<open>Infinity\<close>, or digits with an optional fraction and
  an optional exponent); no such prefix gives NaN.
\<close>

definition parseFloat :: "jsstring \<Rightarrow> jsnum" where
  "parseFloat s =
     (let s1 = dropWhile is_ws s;
          neg = (s1 \<noteq> [] \<and> hd s1 = 45);
          s2 = (if s1 \<noteq> [] \<and> (hd s1 = 43 \<or> hd s1 = 45) then tl s1 else s1)
      in if prefix (js ''Infinity'') s2 then (if neg then NegInfinity else Infinity)
         else
           (let ip = takeWhile is_digit s2;
                r1 = dropWhile is_digit s2;
                dot = (r1 \<noteq> [] \<and> hd r1 = 46);
                fp = (if dot then takeWhile is_digit (tl r1) else []);
                r2 = (if dot then dropWhile is_digit (tl r1) else r1)
            in if ip = [] \<and> fp = [] then NaN
               else
                 (let m = scale10 (of_nat (radix_val 10 (ip @ fp)))
                            (exponent_part r2 - int (length fp))
                  in Num (if neg then - m else m))))"

text \<open>
  A destructured array element is a string or \<open>undefined\<close> (\<open>None\<close>); both parsers
  first convert their argument to a string, and \<open>undefined\<close> becomes the string
  \<open>"undefined"\<close>.
\<close>

definition to_string :: "jsstring option \<Rightarrow> jsstring" where
  "to_string v = (case v of None \<Rightarrow> js ''undefined'' | Some s \<Rightarrow> s)"

section \<open>The bounding-box parser of \<open>/api/get-bboxes\<close>\<close>

record bbox =
  "text" :: jsstring
  confidence :: jsnum
  x_min :: jsnum
  y_min :: jsnum
  x_max :: jsnum
  y_max :: jsnum

text \<open>Array destructuring: position \<open>i\<close> of the array, \<open>undefined\<close> beyond its end.\<close>

definition field :: "jsstring list \<Rightarrow> nat \<Rightarrow> jsstring option" where
  "field fs i = (if i < length fs then Some (fs ! i) else None)"

text \<open>
  The callback of \<open>map\<close>: the line is split at TAB (code unit 9) and the fields
  \<open>left, top, width, height, conf, text\<close> are positions 6 to 11. \<open>text.trim()\<close> is
  evaluated first and throws a TypeError when \<open>text\<close> is \<open>undefined\<close>.
\<close>

definition parse_row :: "jsstring \<Rightarrow> error + bbox" where
  "parse_row line =
     (let fs = split_on 9 line;
          left = field fs 6; top = field fs 7; width = field fs 8; height = field fs 9;
          conf = field fs 10; txt = field fs 11
      in case txt of
           None \<Rightarrow> Inl TypeError
         | Some t \<Rightarrow>
             Inr \<lparr> text = js_trim t,
                   confidence = parseFloat (to_string conf),
                   x_min = parseInt (to_string left),
                   y_min = parseInt (to_string top),
                   x_max = js_add (parseInt (to_string left)) (parseInt (to_string width)),
                   y_max = js_add (parseInt (to_string top)) (parseInt (to_string height)) \<rparr>)"

text \<open>\<open>Array.prototype.map\<close> with a callback that may throw: the first throw ends it.\<close>

fun map_throwing :: "('a \<Rightarrow> error + 'b) \<Rightarrow> 'a list \<Rightarrow> error + 'b list" where
  "map_throwing f [] = Inr []"
| "map_throwing f (x # xs) =
     (case f x of
        Inl e \<Rightarrow> Inl e
      | Inr y \<Rightarrow> (case map_throwing f xs of Inl e \<Rightarrow> Inl e | Inr ys \<Rightarrow> Inr (y # ys)))"

text \<open>
  \<open>data.split('\n').slice(1)\<close> followed by \<open>filter(line => line.trim())\<close>: the lines
  after the header whose trimmed form is a non-empty (truthy) string.
\<close>

definition data_lines :: "jsstring \<Rightarrow> jsstring list" where
  "data_lines data = filter (\<lambda>line. js_trim line \<noteq> []) (drop 1 (split_on 10 data))"

definition parse_tsv :: "jsstring \<Rightarrow> error + bbox list" where
  "parse_tsv data = map_throwing parse_row (data_lines data)"

section \<open>Image validation\<close>

type_synonym byte = "8 word"

text \<open>
  What the program takes from its platform and cannot be read off \<open>src/index.js\<close>:
  \<^item> \<open>buffer_from v\<close> is \<open>Buffer.from(v, 'base64')\<close>, the decoded bytes or an exception;
  \<^item> \<open>utf8_decode\<close> is the decoding \<open>fs.readFile(_, 'utf8', _)\<close> applies to a file;
  \<^item> \<open>tesseract cmd (files, free)\<close> is the run of the external command \<open>cmd\<close>:
    whether \<open>exec\<close> reports an error, the text on standard error, and the files
    afterwards;
  \<^item> \<open>sep\<close> is the separator \<open>path.join\<close> puts between two segments.
\<close>

datatype node = File "byte list" | Dir

record platform =
  buffer_from :: "jsval \<Rightarrow> error + byte list"
  utf8_decode :: "byte list \<Rightarrow> jsstring"
  tesseract :: "jsstring \<Rightarrow> (jsstring \<rightharpoonup> node) \<times> nat \<Rightarrow> bool \<times> jsstring \<times> (jsstring \<rightharpoonup> node) \<times> nat"
  sep :: jsstring

definition hex_digit :: "nat \<Rightarrow> nat" where
  "hex_digit n = (if n < 10 then 48 + n else 87 + n)"

definition hex_byte :: "byte \<Rightarrow> jsstring" where
  "hex_byte b = [hex_digit (unat b div 16), hex_digit (unat b mod 16)]"

text \<open>\<open>buf.toString('hex', s, e)\<close>: two lowercase hex digits for each byte in the range.\<close>

definition to_hex :: "byte list \<Rightarrow> nat \<Rightarrow> nat \<Rightarrow> jsstring" where
  "to_hex buf s e = concat (map hex_byte (take (e - s) (drop s buf)))"

text \<open>
  \<open>toLowerCase\<close> on the ASCII letters; the program applies it to the output of
  \<open>to_hex\<close> only, where no other cased character occurs.
\<close>

definition toLowerCase :: "jsstring \<Rightarrow> jsstring" where
  "toLowerCase s = map (\<lambda>c. if 65 \<le> c \<and> c \<le> 90 then c + 32 else c) s"

definition signatures :: "jsstring list" where
  "signatures = [js ''ffd8'', js ''8950'', js ''4749'']"

text \<open>The \<open>try\<close> block covers the decoding; the \<open>catch\<close> returns \<open>false\<close>.\<close>

definition isValidBase64Image :: "platform \<Rightarrow> jsval \<Rightarrow> bool" where
  "isValidBase64Image P base64String =
     (case buffer_from P base64String of
        Inl e \<Rightarrow> False
      | Inr buffer \<Rightarrow>
          (let firstBytes = toLowerCase (to_hex buffer 0 4)
           in list_ex (\<lambda>sig. prefix sig firstBytes) signatures))"

definition VALID_BBOX_TYPES :: "jsval list" where
  "VALID_BBOX_TYPES =
     [JStr (js ''word''), JStr (js ''line''), JStr (js ''paragraph''), JStr (js ''block''),
      JStr (js ''page'')]"

section \<open>Files\<close>

text \<open>
  The state a request runs in: the files by path, the free space of the disk, and the
  trace of the effects performed so far. A path names a regular file with its bytes, a
  directory, or nothing.
\<close>

datatype event =
    Wrote jsstring
  | Ran jsstring
  | Unlinked jsstring
  | Logged jsstring

record world =
  nodes :: "jsstring \<rightharpoonup> node"
  free :: nat
  trace :: "event list"

definition console_error :: "jsstring \<Rightarrow> world \<Rightarrow> world" where
  "console_error label w = w\<lparr>trace := trace w @ [Logged label]\<rparr>"

definition existsSync :: "jsstring \<Rightarrow> world \<Rightarrow> bool" where
  "existsSync p w = (nodes w p \<noteq> None)"

text \<open>\<open>fs.unlinkSync\<close> removes a regular file and throws on a directory or a missing path.\<close>

definition unlinkSync :: "jsstring \<Rightarrow> world \<Rightarrow> error + world" where
  "unlinkSync p w =
     (case nodes w p of
        None \<Rightarrow> Inl ENOENT
      | Some Dir \<Rightarrow> Inl EISDIR
      | Some (File c) \<Rightarrow>
          Inr (w\<lparr>nodes := (nodes w)(p := None), free := free w + length c,
                 trace := trace w @ [Unlinked p]\<rparr>))"

text \<open>
  \<open>fs.writeFile\<close> opens the path for writing, which creates or truncates the file, and
  then writes the buffer. It fails on a directory, and when the disk fills up it fails
  after writing what fitted, leaving the shortened file behind.
\<close>

definition writeFile :: "jsstring \<Rightarrow> byte list \<Rightarrow> world \<Rightarrow> error option \<times> world" where
  "writeFile p buf w =
     (case nodes w p of
        Some Dir \<Rightarrow> (Some EISDIR, w)
      | old \<Rightarrow>
          (let avail = free w + (case old of Some (File c) \<Rightarrow> length c | _ \<Rightarrow> 0)
           in if length buf \<le> avail
              then (None, w\<lparr>nodes := (nodes w)(p \<mapsto> File buf), free := avail - length buf,
                             trace := trace w @ [Wrote p]\<rparr>)
              else (Some ENOSPC, w\<lparr>nodes := (nodes w)(p \<mapsto> File (take avail buf)), free := 0,
                                    trace := trace w @ [Wrote p]\<rparr>)))"

definition readFile :: "platform \<Rightarrow> jsstring \<Rightarrow> world \<Rightarrow> error + jsstring" where
  "readFile P p w =
     (case nodes w p of
        None \<Rightarrow> Inl ENOENT
      | Some Dir \<Rightarrow> Inl EISDIR
      | Some (File c) \<Rightarrow> Inr (utf8_decode P c))"

text \<open>\<open>exec\<close>: the callback receives the error flag and standard error of the command.\<close>

definition exec :: "platform \<Rightarrow> jsstring \<Rightarrow> world \<Rightarrow> (bool \<times> jsstring) \<times> world" where
  "exec P cmd w =
     (case tesseract P cmd (nodes w, free w) of
        (err, stderr, ns, fr) \<Rightarrow>
          ((err, stderr), w\<lparr>nodes := ns, free := fr, trace := trace w @ [Ran cmd]\<rparr>))"

subsection \<open>\<open>cleanupFiles\<close>\<close>

definition unlink_if_exists :: "jsstring \<Rightarrow> world \<Rightarrow> error + world" where
  "unlink_if_exists p w = (if existsSync p w then unlinkSync p w else Inr w)"

text \<open>
  The three statements of the \<open>try\<close> block run in order; the first one that throws ends
  the block, and the \<open>catch\<close> logs the error and returns.
\<close>

definition cleanupFiles :: "jsstring \<Rightarrow> jsstring \<Rightarrow> world \<Rightarrow> world" where
  "cleanupFiles imagePath outputBase w =
     (case unlink_if_exists imagePath w of
        Inl e \<Rightarrow> console_error (js ''Cleanup error:'') w
      | Inr w1 \<Rightarrow>
          (case unlink_if_exists (outputBase @ js ''.txt'') w1 of
             Inl e \<Rightarrow> console_error (js ''Cleanup error:'') w1
           | Inr w2 \<Rightarrow>
               (case unlink_if_exists (outputBase @ js ''.tsv'') w2 of
                  Inl e \<Rightarrow> console_error (js ''Cleanup error:'') w2
                | Inr w3 \<Rightarrow> w3)))"

section \<open>Staging\<close>

text \<open>The decimal digits of a natural number, and \<open>String(n)\<close> for an integer \<open>n\<close>.\<close>

fun digits :: "nat \<Rightarrow> jsstring" where
  "digits n = (if n < 10 then [48 + n] else digits (n div 10) @ [48 + n mod 10])"

declare digits.simps [simp del]

definition number_to_string :: "int \<Rightarrow> jsstring" where
  "number_to_string i = (if i < 0 then 45 # digits (nat (- i)) else digits (nat i))"

definition path_join :: "platform \<Rightarrow> jsstring \<Rightarrow> jsstring \<Rightarrow> jsstring" where
  "path_join P a b = a @ sep P @ b"

text \<open>
  Both handlers read the clock twice, once for each path: \<open>t1\<close> is the value of the
  first \<open>Date.now()\<close> and \<open>t2\<close> the value of the second.
\<close>

definition imagePath :: "platform \<Rightarrow> int \<Rightarrow> jsstring" where
  "imagePath P t1 = path_join P (js ''uploads'') (js ''image_'' @ number_to_string t1 @ js ''.png'')"

definition outputPath :: "platform \<Rightarrow> int \<Rightarrow> jsstring" where
  "outputPath P t2 = path_join P (js ''output'') (js ''image_'' @ number_to_string t2)"

definition TESSERACT_PATH :: jsstring where
  "TESSERACT_PATH =
     js ''C:'' @ [92] @ js ''Program Files'' @ [92] @ js ''Tesseract-OCR'' @ [92] @ js ''tesseract.exe''"

text \<open>The command line, with each of the three parts in double quotes (code unit 34).\<close>

definition command :: "jsstring \<Rightarrow> jsstring \<Rightarrow> jsstring" where
  "command ip op =
     [34] @ TESSERACT_PATH @ [34, 32, 34] @ ip @ [34, 32, 34] @ op @ [34]"

section \<open>The two handlers\<close>

record request =
  base64_image :: jsval
  bbox_type :: jsval

text \<open>
  The JSON bodies the handlers send: \<open>{success: false, error: {message}}\<close>,
  \<open>{success: true, result: {text}}\<close> and \<open>{success: true, result: {bboxes, bbox_type}}\<close>.
  A handler ends by sending a response with a status, or with an exception nobody
  catches.
\<close>

datatype body =
    Failure jsstring
  | TextResult jsstring
  | BboxesResult "bbox list" jsval

datatype outcome = Responded nat body | Uncaught error

definition get_text :: "platform \<Rightarrow> int \<Rightarrow> int \<Rightarrow> request \<Rightarrow> world \<Rightarrow> outcome \<times> world" where
  "get_text P t1 t2 req w =
     (if falsy (base64_image req) \<or> \<not> isValidBase64Image P (base64_image req)
      then (Responded 400 (Failure (js ''Invalid base64_image.'')), w)
      else
        (case buffer_from P (base64_image req) of
           Inl e \<Rightarrow> (Uncaught e, w)
         | Inr buffer \<Rightarrow>
             (case writeFile (imagePath P t1) buffer w of
                (Some err, w1) \<Rightarrow>
                  (Responded 500 (Failure (js ''Error saving image.'')),
                   console_error (js ''Write File Error:'') w1)
              | (None, w1) \<Rightarrow>
                  (case exec P (command (imagePath P t1) (outputPath P t2)) w1 of
                     ((True, stderr), w2) \<Rightarrow>
                       (Responded 500 (Failure (js ''Error processing image: '' @ stderr)),
                        cleanupFiles (imagePath P t1) (outputPath P t2)
                          (console_error (js ''Tesseract Error:'') w2))
                   | ((False, stderr), w2) \<Rightarrow>
                       (case readFile P (outputPath P t2 @ js ''.txt'') w2 of
                          Inl err \<Rightarrow>
                            (Responded 500 (Failure (js ''Error reading output file.'')),
                             cleanupFiles (imagePath P t1) (outputPath P t2)
                               (console_error (js ''Read File Error:'') w2))
                        | Inr data \<Rightarrow>
                            (Responded 200 (TextResult (js_trim data)),
                             cleanupFiles (imagePath P t1) (outputPath P t2) w2))))))"

definition get_bboxes :: "platform \<Rightarrow> int \<Rightarrow> int \<Rightarrow> request \<Rightarrow> world \<Rightarrow> outcome \<times> world" where
  "get_bboxes P t1 t2 req w =
     (if falsy (base64_image req) \<or> \<not> isValidBase64Image P (base64_image req)
      then (Responded 400 (Failure (js ''Invalid base64_image.'')), w)
      else if falsy (bbox_type req) \<or> bbox_type req \<notin> set VALID_BBOX_TYPES
      then (Responded 400 (Failure (js ''Invalid bbox_type.'')), w)
      else
        (case buffer_from P (base64_image req) of
           Inl e \<Rightarrow> (Uncaught e, w)
         | Inr buffer \<Rightarrow>
             (case writeFile (imagePath P t1) buffer w of
                (Some err, w1) \<Rightarrow>
                  (Responded 500 (Failure (js ''Error saving image.'')),
                   console_error (js ''Write File Error:'') w1)
              | (None, w1) \<Rightarrow>
                  (case exec P (command (imagePath P t1) (outputPath P t2)
                                  @ js '' -c tessedit_create_tsv=1'') w1 of
                     ((True, stderr), w2) \<Rightarrow>
                       (Responded 500 (Failure (js ''Error processing image: '' @ stderr)),
                        cleanupFiles (imagePath P t1) (outputPath P t2)
                          (console_error (js ''Tesseract Error:'') w2))
                   | ((False, stderr), w2) \<Rightarrow>
                       (case readFile P (outputPath P t2 @ js ''.tsv'') w2 of
                          Inl err \<Rightarrow>
                            (Responded 500 (Failure (js ''Error reading output file.'')),
                             cleanupFiles (imagePath P t1) (outputPath P t2)
                               (console_error (js ''Read File Error:'') w2))
                        | Inr data \<Rightarrow>
                            (case parse_tsv data of
                               Inl e \<Rightarrow> (Uncaught e, w2)
                             | Inr bboxes \<Rightarrow>
                                 (Responded 200 (BboxesResult bboxes (bbox_type req)),
                                  cleanupFiles (imagePath P t1) (outputPath P t2) w2)))))))"

section \<open>Sample inputs\<close>

text \<open>
  The row of the specification,
  \<open>5 1 1 1 1 1 10 20 30 8 95.5 hello\<close> with a TAB between the fields, and a file made
  of a header line, that row and a line of two spaces.
\<close>

definition example_line :: jsstring where
  "example_line =
     js ''5'' @ [9] @ js ''1'' @ [9] @ js ''1'' @ [9] @ js ''1'' @ [9] @ js ''1'' @ [9] @
     js ''1'' @ [9] @ js ''10'' @ [9] @ js ''20'' @ [9] @ js ''30'' @ [9] @ js ''8'' @ [9] @
     js ''95.5'' @ [9] @ js ''hello''"

definition example_data :: jsstring where
  "example_data = js ''level'' @ [10] @ example_line @ [10] @ js ''  '' @ [10]"

text \<open>Two files whose only data line has fewer than twelve fields.\<close>

definition short_data :: jsstring where
  "short_data = js ''level'' @ [10] @ js ''5'' @ [9] @ js ''1'' @ [10]"

definition headed_word :: jsstring where
  "headed_word = js ''h'' @ [10] @ js ''abc''"



text \<open>
  A platform to run the handlers on: it decodes the base64 string \<open>iVBORw==\<close> to the
  four bytes \<open>89 50 4E 47\<close> that begin a PNG file and \<open>AAAAAA==\<close> to four zero bytes,
  reads files as ASCII, separates path segments by a slash, and has a recogniser that
  succeeds and writes one given file.
\<close>

definition stub_decode :: "jsval \<Rightarrow> error + byte list" where
  "stub_decode v =
     (case v of
        JStr s \<Rightarrow>
          (if s = js ''iVBORw=='' then Inr [0x89, 0x50, 0x4E, 0x47]
           else if s = js ''AAAAAA=='' then Inr [0, 0, 0, 0]
           else Inr [])
      | _ \<Rightarrow> Inl TypeError)"

definition stub_platform :: "jsstring \<Rightarrow> byte list \<Rightarrow> platform" where
  "stub_platform out_path content =
     \<lparr> buffer_from = stub_decode,
       utf8_decode = map unat,
       tesseract = (\<lambda>cmd (ns, fr). (False, [], ns(out_path \<mapsto> File content), fr)),
       sep = [47] \<rparr>"

definition ascii_bytes :: "jsstring \<Rightarrow> byte list" where
  "ascii_bytes s = map of_nat s"

definition png_request :: "jsval \<Rightarrow> request" where
  "png_request bt = \<lparr> base64_image = JStr (js ''iVBORw==''), bbox_type = bt \<rparr>"

definition empty_disk :: "nat \<Rightarrow> world" where
  "empty_disk n = \<lparr> nodes = Map.empty, free = n, trace = [] \<rparr>"

text \<open>
  A row of level 4 (a text line: confidence \<open>-1\<close>, empty text) and a file with rows of
  two levels.
\<close>

definition level_line :: jsstring where
  "level_line =
     js ''4'' @ [9] @ js ''1'' @ [9] @ js ''1'' @ [9] @ js ''1'' @ [9] @ js ''1'' @ [9] @
     js ''0'' @ [9] @ js ''10'' @ [9] @ js ''20'' @ [9] @ js ''100'' @ [9] @ js ''8'' @ [9] @
     js ''-1'' @ [9]"

definition levels_data :: jsstring where
  "levels_data = js ''level'' @ [10] @ level_line @ [10] @ example_line @ [10]"

text \<open>
  Two states for \<open>cleanupFiles\<close>: one where \<open>output/image_1.txt\<close> is a directory, and
  one with a staged image and its text output.
\<close>

definition blocked_world :: world where
  "blocked_world =
     \<lparr> nodes = [js ''uploads/image_1.png'' \<mapsto> File [1], js ''output/image_1.txt'' \<mapsto> Dir,
               js ''output/image_1.tsv'' \<mapsto> File [2]],
       free = 0, trace = [] \<rparr>"

definition staged_world :: world where
  "staged_world =
     \<lparr> nodes = [js ''uploads/image_1.png'' \<mapsto> File [1], js ''output/image_1.txt'' \<mapsto> File [2, 3]],
       free = 0, trace = [] \<rparr>"

section \<open>Lists and strings\<close>

text \<open>The empty case in the definition of \<open>split_on\<close> is never taken.\<close>

lemma split_on_nonempty: "split_on c s \<noteq> []"
  by (induction s) (auto split: list.splits)

lemma split_on_append:
  "c \<notin> set a \<Longrightarrow> split_on c (a @ c # rest) = a # split_on c rest"
  by (induction a) (auto split: list.splits)

lemma map_throwing_all:
  "(\<forall>x\<in>set xs. f x = Inr (g x)) \<Longrightarrow> map_throwing f xs = Inr (map g xs)"
  by (induction xs) auto

lemma map_throwing_Inr:
  "map_throwing f xs = Inr ys \<Longrightarrow>
     length ys = length xs \<and> (\<forall>i<length xs. f (xs ! i) = Inr (ys ! i))"
proof (induction xs arbitrary: ys)
  case Nil
  then show ?case by simp
next
  case (Cons x xs)
  then obtain y zs where y: "f x = Inr y" and zs: "map_throwing f xs = Inr zs" and ys: "ys = y # zs"
    by (auto split: sum.splits)
  from Cons.IH [OF zs] show ?case
    using y ys by (auto simp: nth_Cons split: nat.splits)
qed

lemma map_throwing_Inl:
  "map_throwing f xs = Inl e \<Longrightarrow> \<exists>x\<in>set xs. f x = Inl e"
  by (induction xs) (auto split: sum.splits)

lemma all_dropWhile_iff: "(\<forall>x\<in>set (dropWhile Q s). Q x) \<longleftrightarrow> (\<forall>x\<in>set s. Q x)"
proof
  assume a: "\<forall>x\<in>set (dropWhile Q s). Q x"
  have "dropWhile Q s = []"
  proof (rule ccontr)
    assume "dropWhile Q s \<noteq> []"
    then have "\<not> Q (hd (dropWhile Q s))" "hd (dropWhile Q s) \<in> set (dropWhile Q s)"
      by (simp_all add: hd_dropWhile)
    with a show False by blast
  qed
  then show "\<forall>x\<in>set s. Q x" by (simp add: dropWhile_eq_Nil_conv)
next
  assume "\<forall>x\<in>set s. Q x"
  then show "\<forall>x\<in>set (dropWhile Q s). Q x" by (meson set_dropWhileD)
qed

lemma js_trim_empty_iff: "js_trim s = [] \<longleftrightarrow> list_all is_ws s"
  by (simp add: js_trim_def all_dropWhile_iff list_all_iff)

section \<open>Rows\<close>

lemma parse_row_fields:
  "12 \<le> length (split_on 9 line) \<Longrightarrow>
     parse_row line =
       Inr \<lparr> text = js_trim (split_on 9 line ! 11),
             confidence = parseFloat (split_on 9 line ! 10),
             x_min = parseInt (split_on 9 line ! 6),
             y_min = parseInt (split_on 9 line ! 7),
             x_max = js_add (parseInt (split_on 9 line ! 6)) (parseInt (split_on 9 line ! 8)),
             y_max = js_add (parseInt (split_on 9 line ! 7)) (parseInt (split_on 9 line ! 9)) \<rparr>"
  by (simp add: parse_row_def field_def to_string_def Let_def)

lemma parse_row_short:
  "length (split_on 9 line) < 12 \<Longrightarrow> parse_row line = Inl TypeError"
  by (simp add: parse_row_def field_def Let_def)

lemma parse_row_Inl: "parse_row line = Inl e \<Longrightarrow> e = TypeError \<and> length (split_on 9 line) < 12"
  by (cases "12 \<le> length (split_on 9 line)") (auto simp: parse_row_fields parse_row_short)

lemma parse_tsv_Inl:
  assumes "\<exists>line\<in>set (data_lines data). length (split_on 9 line) < 12"
  shows "parse_tsv data = Inl TypeError"
proof (cases "parse_tsv data")
  case (Inl e)
  then obtain x where "x \<in> set (data_lines data)" "parse_row x = Inl e"
    unfolding parse_tsv_def by (blast dest: map_throwing_Inl)
  then have "e = TypeError" by (simp add: parse_row_Inl)
  with Inl show ?thesis by simp
next
  case (Inr bs)
  from assms obtain l where l: "l \<in> set (data_lines data)" "length (split_on 9 l) < 12" by blast
  then obtain i where i: "i < length (data_lines data)" "data_lines data ! i = l"
    by (auto simp: in_set_conv_nth)
  from Inr have "parse_row (data_lines data ! i) = Inr (bs ! i)"
    unfolding parse_tsv_def using i(1) by (blast dest: map_throwing_Inr)
  with i l show ?thesis by (simp add: parse_row_short)
qed

section \<open>Samples\<close>

lemma split_example_line:
  "split_on 9 example_line =
     [js ''5'', js ''1'', js ''1'', js ''1'', js ''1'', js ''1'', js ''10'', js ''20'',
      js ''30'', js ''8'', js ''95.5'', js ''hello'']"
  by (simp add: example_line_def js_def)

lemma parseInt_samples:
  "parseInt (js ''10'') = Num 10" "parseInt (js ''20'') = Num 20"
  "parseInt (js ''30'') = Num 30" "parseInt (js ''8'') = Num 8"
  "parseInt (js ''12abc'') = Num 12" "parseInt (js ''abc'') = NaN"
  by (simp_all add: js_def parseInt_def Let_def is_ws_def radix_val_def hex_val_def
        is_radix_digit_def)

lemma parseFloat_samples: "parseFloat (js ''95.5'') = Num 95.5" "parseFloat [] = NaN"
  by (simp_all add: js_def parseFloat_def Let_def is_ws_def is_digit_def radix_val_def
        hex_val_def exponent_part_def scale10_def)

lemma js_trim_hello: "js_trim (js ''hello'') = js ''hello''"
  by (simp add: js_def js_trim_def is_ws_def)

lemma parse_row_example_line:
  "parse_row example_line =
     Inr \<lparr> text = js ''hello'', confidence = Num 95.5, x_min = Num 10, y_min = Num 20,
           x_max = Num 40, y_max = Num 28 \<rparr>"
  by (simp add: parse_row_def split_example_line field_def to_string_def parseInt_samples
        parseFloat_samples js_trim_hello)

lemma split_example_data:
  "split_on 10 example_data = [js ''level'', example_line, js ''  '', []]"
proof -
  have a: "10 \<notin> set (js ''level'')" "10 \<notin> set example_line" "10 \<notin> set (js ''  '')"
    by (simp_all add: js_def example_line_def)
  show ?thesis
    unfolding example_data_def using a
    by (simp add: split_on_append)
qed

lemma data_lines_example: "data_lines example_data = [example_line]"
proof -
  have "js_trim example_line \<noteq> []"
    by (simp add: js_trim_empty_iff example_line_def js_def is_ws_def)
  moreover have "js_trim (js ''  '') = []" "js_trim [] = []"
    by (simp_all add: js_trim_empty_iff js_def is_ws_def)
  ultimately show ?thesis
    by (simp add: data_lines_def split_example_data)
qed





text \<open>
  Claim C3. When every non-blank line after the header has at least twelve fields, the
  parser drops the first line, skips the lines made of white space only, and turns each
  remaining line, split at TAB, into the record with \<open>text\<close> the trimmed twelfth field,
  \<open>confidence\<close> the eleventh field parsed as a float, \<open>x_min\<close> and \<open>y_min\<close> the fields
  \<open>left\<close> and \<open>top\<close> parsed as integers, and \<open>x_max\<close>, \<open>y_max\<close> the sums
  \<open>left + width\<close> and \<open>top + height\<close>. The row of the specification parses to
  \<open>{text: "hello", confidence: 95.5, x_min: 10, y_min: 20, x_max: 40, y_max: 28}\<close>.
\<close>

theorem parse_tsv_records:
  assumes "\<forall>line\<in>set (data_lines data). 12 \<le> length (split_on 9 line)"
  shows "data_lines data = filter (\<lambda>line. \<not> list_all is_ws line) (drop 1 (split_on 10 data)) \<and>
         parse_tsv data =
           Inr (map (\<lambda>line.
                  \<lparr> text = js_trim (split_on 9 line ! 11),
                    confidence = parseFloat (split_on 9 line ! 10),
                    x_min = parseInt (split_on 9 line ! 6),
                    y_min = parseInt (split_on 9 line ! 7),
                    x_max = js_add (parseInt (split_on 9 line ! 6)) (parseInt (split_on 9 line ! 8)),
                    y_max = js_add (parseInt (split_on 9 line ! 7)) (parseInt (split_on 9 line ! 9)) \<rparr>)
                (data_lines data)) \<and>
         parse_row example_line =
           Inr \<lparr> text = js ''hello'', confidence = Num 95.5, x_min = Num 10, y_min = Num 20,
                 x_max = Num 40, y_max = Num 28 \<rparr>"
proof (intro conjI)
  show "data_lines data = filter (\<lambda>line. \<not> list_all is_ws line) (drop 1 (split_on 10 data))"
    by (simp add: data_lines_def js_trim_empty_iff)
next
  from assms show "parse_tsv data =
           Inr (map (\<lambda>line.
                  \<lparr> text = js_trim (split_on 9 line ! 11),
                    confidence = parseFloat (split_on 9 line ! 10),
                    x_min = parseInt (split_on 9 line ! 6),
                    y_min = parseInt (split_on 9 line ! 7),
                    x_max = js_add (parseInt (split_on 9 line ! 6)) (parseInt (split_on 9 line ! 8)),
                    y_max = js_add (parseInt (split_on 9 line ! 7)) (parseInt (split_on 9 line ! 9)) \<rparr>)
                (data_lines data))"
    unfolding parse_tsv_def by (intro map_throwing_all) (simp add: parse_row_fields)
next
  show "parse_row example_line =
           Inr \<lparr> text = js ''hello'', confidence = Num 95.5, x_min = Num 10, y_min = Num 20,
                 x_max = Num 40, y_max = Num 28 \<rparr>"
    by (rule parse_row_example_line)
qed

theorem parse_tsv_records_witness:
  "data_lines example_data = [example_line] \<and> 12 \<le> length (split_on 9 example_line) \<and>
   parse_tsv example_data =
     Inr [\<lparr> text = js ''hello'', confidence = Num 95.5, x_min = Num 10, y_min = Num 20,
            x_max = Num 40, y_max = Num 28 \<rparr>]"
proof -
  have h: "\<forall>line\<in>set (data_lines example_data). 12 \<le> length (split_on 9 line)"
    by (simp add: data_lines_example split_example_line)
  from parse_tsv_records [OF h] have
    "parse_tsv example_data =
           Inr (map (\<lambda>line.
                  \<lparr> text = js_trim (split_on 9 line ! 11),
                    confidence = parseFloat (split_on 9 line ! 10),
                    x_min = parseInt (split_on 9 line ! 6),
                    y_min = parseInt (split_on 9 line ! 7),
                    x_max = js_add (parseInt (split_on 9 line ! 6)) (parseInt (split_on 9 line ! 8)),
                    y_max = js_add (parseInt (split_on 9 line ! 7)) (parseInt (split_on 9 line ! 9)) \<rparr>)
                (data_lines example_data))"
    by blast
  then have "parse_tsv example_data =
     Inr [\<lparr> text = js ''hello'', confidence = Num 95.5, x_min = Num 10, y_min = Num 20,
            x_max = Num 40, y_max = Num 28 \<rparr>]"
    by (simp add: data_lines_example split_example_line parseInt_samples parseFloat_samples
          js_trim_hello)
  then show ?thesis by (simp add: data_lines_example split_example_line)
qed

text \<open>
  Without the condition on the number of fields the claim fails: the file \<open>h\<close>,
  newline, \<open>abc\<close> has the data line \<open>abc\<close>, and the parser throws instead of emitting
  a record for it.
\<close>

lemma data_lines_headed_word: "data_lines headed_word = [js ''abc'']"
proof -
  have "split_on 10 headed_word = [js ''h'', js ''abc'']"
    by (simp add: headed_word_def js_def)
  moreover have "js_trim (js ''abc'') \<noteq> []"
    by (simp add: js_trim_empty_iff js_def is_ws_def)
  ultimately show ?thesis by (simp add: data_lines_def)
qed

theorem parse_tsv_short_row_counterexample:
  "data_lines headed_word = [js ''abc''] \<and> parse_tsv headed_word = Inl TypeError"
proof -
  have "parse_row (js ''abc'') = Inl TypeError"
    by (rule parse_row_short) (simp add: js_def)
  then show ?thesis
    by (simp add: parse_tsv_def data_lines_headed_word)
qed










section \<open>Trimming\<close>

lemma rev_dropWhile_takeWhile:
  "rev (dropWhile Q (rev xs)) @ rev (takeWhile Q (rev xs)) = xs"
proof -
  have "rev (dropWhile Q (rev xs)) @ rev (takeWhile Q (rev xs)) =
          rev (takeWhile Q (rev xs) @ dropWhile Q (rev xs))"
    by (simp only: rev_append)
  also have "\<dots> = xs"
    by (simp only: takeWhile_dropWhile_id rev_rev_ident)
  finally show ?thesis .
qed

lemma js_trim_decomp:
  "\<exists>a b. s = a @ js_trim s @ b \<and> list_all is_ws a \<and> list_all is_ws b"
proof -
  let ?m = "dropWhile is_ws s"
  have 1: "s = takeWhile is_ws s @ ?m" by simp
  have 2: "?m = js_trim s @ rev (takeWhile is_ws (rev ?m))"
    unfolding js_trim_def by (rule rev_dropWhile_takeWhile [symmetric])
  have 3: "list_all is_ws (takeWhile is_ws s)"
    by (auto simp: list_all_iff dest: set_takeWhileD)
  have 4: "list_all is_ws (rev (takeWhile is_ws (rev ?m)))"
    by (auto simp: list_all_iff dest: set_takeWhileD)
  from 1 2 have "s = takeWhile is_ws s @ js_trim s @ rev (takeWhile is_ws (rev ?m))"
    by metis
  with 3 4 show ?thesis by blast
qed

lemma last_dropWhile: "dropWhile Q xs \<noteq> [] \<Longrightarrow> last (dropWhile Q xs) = last xs"
  by (metis last_appendR takeWhile_dropWhile_id)

lemma js_trim_ends:
  assumes "js_trim s \<noteq> []"
  shows "\<not> is_ws (hd (js_trim s)) \<and> \<not> is_ws (last (js_trim s))"
proof -
  let ?m = "dropWhile is_ws s"
  let ?r = "dropWhile is_ws (rev ?m)"
  from assms have r: "?r \<noteq> []" by (simp add: js_trim_def)
  have m: "?m \<noteq> []"
  proof
    assume "?m = []"
    then have "?r = []" by (simp only: rev.simps dropWhile.simps)
    with r show False by contradiction
  qed
  have "last (js_trim s) = hd ?r" using r by (simp add: js_trim_def last_rev)
  moreover have "\<not> is_ws (hd ?r)" using r by (rule hd_dropWhile)
  moreover have "hd (js_trim s) = last ?r" using r by (simp add: js_trim_def hd_rev)
  moreover have "last ?r = last (rev ?m)"
    using r by (rule last_dropWhile)
  moreover have "last (rev ?m) = hd ?m" using m by (simp add: last_rev)
  moreover have "\<not> is_ws (hd ?m)" using m by (rule hd_dropWhile)
  ultimately show ?thesis by simp
qed

section \<open>Paths of the handlers\<close>

lemma valid_not_falsy: "v \<in> set VALID_BBOX_TYPES \<Longrightarrow> \<not> falsy v"
  by (auto simp: VALID_BBOX_TYPES_def js_def)

lemma get_bboxes_read:
  assumes "\<not> falsy (base64_image req)" "isValidBase64Image P (base64_image req)"
    and "bbox_type req \<in> set VALID_BBOX_TYPES"
    and "buffer_from P (base64_image req) = Inr buffer"
    and "writeFile (imagePath P t1) buffer w = (None, w1)"
    and "exec P (command (imagePath P t1) (outputPath P t2) @ js '' -c tessedit_create_tsv=1'') w1
           = ((False, stderr), w2)"
    and "readFile P (outputPath P t2 @ js ''.tsv'') w2 = Inr data"
  shows "get_bboxes P t1 t2 req w =
           (case parse_tsv data of
              Inl e \<Rightarrow> (Uncaught e, w2)
            | Inr bboxes \<Rightarrow>
                (Responded 200 (BboxesResult bboxes (bbox_type req)),
                 cleanupFiles (imagePath P t1) (outputPath P t2) w2))"
  using assms valid_not_falsy [of "bbox_type req"] by (simp add: get_bboxes_def)

lemma get_text_read:
  assumes "\<not> falsy (base64_image req)" "isValidBase64Image P (base64_image req)"
    and "buffer_from P (base64_image req) = Inr buffer"
    and "writeFile (imagePath P t1) buffer w = (None, w1)"
    and "exec P (command (imagePath P t1) (outputPath P t2)) w1 = ((False, stderr), w2)"
    and "readFile P (outputPath P t2 @ js ''.txt'') w2 = Inr data"
  shows "get_text P t1 t2 req w =
           (Responded 200 (TextResult (js_trim data)),
            cleanupFiles (imagePath P t1) (outputPath P t2) w2)"
  using assms by (simp add: get_text_def)

section \<open>The sample platform\<close>

lemma digits_1000: "digits 1000 = js ''1000''" "digits 1001 = js ''1001''"
  by (simp_all add: digits.simps js_def)

lemma stub_paths:
  "imagePath (stub_platform out c) 1000 = js ''uploads/image_1000.png''"
  "outputPath (stub_platform out c) 1000 = js ''output/image_1000''"
  "outputPath (stub_platform out c) 1001 = js ''output/image_1001''"
  by (simp_all add: imagePath_def outputPath_def path_join_def stub_platform_def
        number_to_string_def digits_1000) (simp_all add: js_def)

lemma stub_png:
  "buffer_from (stub_platform out c) (JStr (js ''iVBORw=='')) = Inr [0x89, 0x50, 0x4E, 0x47]"
  by (simp add: stub_platform_def stub_decode_def)

lemma to_hex_png: "to_hex [0x89, 0x50, 0x4E, 0x47] 0 4 = js ''89504e47''"
  by (simp add: to_hex_def hex_byte_def hex_digit_def js_def)

lemma stub_png_valid: "isValidBase64Image (stub_platform out c) (JStr (js ''iVBORw==''))"
  by (simp add: isValidBase64Image_def stub_png to_hex_png)
     (simp add: toLowerCase_def signatures_def js_def)

lemma map_unat_ascii: "\<forall>c\<in>set s. c < 256 \<Longrightarrow> map unat (ascii_bytes s) = s"
  by (induction s) (simp_all add: ascii_bytes_def unat_of_nat)

lemma stub_exec:
  "exec (stub_platform out c) cmd w =
     ((False, []), w\<lparr>nodes := (nodes w)(out \<mapsto> File c), trace := trace w @ [Ran cmd]\<rparr>)"
  by (simp add: exec_def stub_platform_def)

lemma stub_write:
  "writeFile (js ''uploads/image_1000.png'') [0x89, 0x50, 0x4E, 0x47] (empty_disk 100) =
     (None, \<lparr>nodes = [js ''uploads/image_1000.png'' \<mapsto> File [0x89, 0x50, 0x4E, 0x47]],
             free = 96, trace = [Wrote (js ''uploads/image_1000.png'')]\<rparr>)"
  by (simp add: writeFile_def empty_disk_def)

lemma stub_read:
  "nodes w p = Some (File c) \<Longrightarrow> readFile (stub_platform out c') p w = Inr (map unat c)"
  by (simp add: readFile_def stub_platform_def)

lemma ascii_samples:
  "map unat (ascii_bytes short_data) = short_data"
  "map unat (ascii_bytes levels_data) = levels_data"
  "map unat (ascii_bytes (js ''  hello '')) = js ''  hello ''"
  by (rule map_unat_ascii, simp add: short_data_def levels_data_def level_line_def
        example_line_def js_def)+

lemma png_nonempty: "js ''iVBORw=='' \<noteq> []"
  by (simp add: js_def)

text \<open>
  Claim C6. A request to \<open>/api/get-bboxes\<close> whose \<open>bbox_type\<close> is absent (or otherwise
  falsy) or is not one of \<open>word\<close>, \<open>line\<close>, \<open>paragraph\<close>, \<open>block\<close>, \<open>page\<close> is answered
  with status 400, and the state is the one the handler started in: no file was written
  and the recogniser was not run (the trace has no new event).
\<close>

theorem get_bboxes_rejects_bbox_type:
  assumes "falsy (bbox_type req) \<or> bbox_type req \<notin> set VALID_BBOX_TYPES"
  shows "get_bboxes P t1 t2 req w =
           (Responded 400
              (Failure (if falsy (base64_image req) \<or> \<not> isValidBase64Image P (base64_image req)
                        then js ''Invalid base64_image.'' else js ''Invalid bbox_type.'')),
            w)"
  using assms by (simp add: get_bboxes_def)

theorem get_bboxes_rejects_bbox_type_witness:
  "falsy (bbox_type (png_request JUndefined)) \<and>
   get_bboxes (stub_platform [] []) 1000 1000 (png_request JUndefined) (empty_disk 100) =
     (Responded 400 (Failure (js ''Invalid bbox_type.'')), empty_disk 100)"
proof -
  have h: "falsy (bbox_type (png_request JUndefined))"
    by (simp add: png_request_def)
  then have "falsy (bbox_type (png_request JUndefined)) \<or>
      bbox_type (png_request JUndefined) \<notin> set VALID_BBOX_TYPES" by (rule disjI1)
  from get_bboxes_rejects_bbox_type [OF this, of "stub_platform [] []" 1000 1000 "empty_disk 100"]
  show ?thesis
    using h by (simp add: png_request_def stub_png_valid png_nonempty)
qed

lemma parse_row_level:
  assumes "9 \<notin> set level" "9 \<notin> set level'"
  shows "parse_row (level @ 9 # rest) = parse_row (level' @ 9 # rest)"
  using assms by (simp add: parse_row_def split_on_append field_def Let_def)

text \<open>
  Claim C8. When \<open>/api/get-bboxes\<close> reaches the parser with any of the five valid
  \<open>bbox_type\<close> values, the response carries one record for every non-blank data line, in
  order, and the \<open>bbox_type\<close> of the request unchanged; the record of a line does not
  depend on its first field \<open>level\<close>.
\<close>

theorem get_bboxes_all_rows:
  assumes "\<not> falsy (base64_image req)" "isValidBase64Image P (base64_image req)"
    and "bbox_type req \<in> set VALID_BBOX_TYPES"
    and "buffer_from P (base64_image req) = Inr buffer"
    and "writeFile (imagePath P t1) buffer w = (None, w1)"
    and "exec P (command (imagePath P t1) (outputPath P t2) @ js '' -c tessedit_create_tsv=1'') w1
           = ((False, stderr), w2)"
    and "readFile P (outputPath P t2 @ js ''.tsv'') w2 = Inr data"
    and "parse_tsv data = Inr bboxes"
  shows "fst (get_bboxes P t1 t2 req w) = Responded 200 (BboxesResult bboxes (bbox_type req)) \<and>
         length bboxes = length (data_lines data) \<and>
         (\<forall>i<length bboxes. parse_row (data_lines data ! i) = Inr (bboxes ! i)) \<and>
         (\<forall>level level' rest. 9 \<notin> set level \<and> 9 \<notin> set level' \<longrightarrow>
            parse_row (level @ 9 # rest) = parse_row (level' @ 9 # rest))"
proof (intro conjI)
  show "fst (get_bboxes P t1 t2 req w) = Responded 200 (BboxesResult bboxes (bbox_type req))"
    using get_bboxes_read [OF assms(1-7)] assms(8) by simp
  from assms(8) have m: "map_throwing parse_row (data_lines data) = Inr bboxes"
    by (simp add: parse_tsv_def)
  from map_throwing_Inr [OF m] show "length bboxes = length (data_lines data)"
    and "\<forall>i<length bboxes. parse_row (data_lines data ! i) = Inr (bboxes ! i)"
    by simp_all
  show "\<forall>level level' rest. 9 \<notin> set level \<and> 9 \<notin> set level' \<longrightarrow>
            parse_row (level @ 9 # rest) = parse_row (level' @ 9 # rest)"
    by (simp add: parse_row_level)
qed

lemma split_level_line:
  "split_on 9 level_line =
     [js ''4'', js ''1'', js ''1'', js ''1'', js ''1'', js ''0'', js ''10'', js ''20'',
      js ''100'', js ''8'', js ''-1'', []]"
  by (simp add: level_line_def js_def)

lemma parse_row_level_line:
  "parse_row level_line =
     Inr \<lparr> text = [], confidence = Num (- 1), x_min = Num 10, y_min = Num 20,
           x_max = Num 110, y_max = Num 28 \<rparr>"
proof -
  have "parseInt (js ''100'') = Num 100"
    by (simp add: js_def parseInt_def Let_def is_ws_def radix_val_def hex_val_def
          is_radix_digit_def)
  moreover have "parseFloat (js ''-1'') = Num (- 1)"
    by (simp add: js_def parseFloat_def Let_def is_ws_def is_digit_def radix_val_def
        hex_val_def exponent_part_def scale10_def)
  moreover have "js_trim [] = []" by (simp add: js_trim_def)
  ultimately show ?thesis
    by (simp add: parse_row_def split_level_line field_def to_string_def parseInt_samples)
qed

lemma data_lines_levels: "data_lines levels_data = [level_line, example_line]"
proof -
  have a: "10 \<notin> set (js ''level'')" "10 \<notin> set example_line" "10 \<notin> set level_line"
    by (simp_all add: js_def example_line_def level_line_def)
  have s: "split_on 10 levels_data = [js ''level'', level_line, example_line, []]"
    unfolding levels_data_def using a by (simp add: split_on_append)
  have "js_trim example_line \<noteq> []" "js_trim level_line \<noteq> []"
    by (simp_all add: js_trim_empty_iff example_line_def level_line_def js_def is_ws_def)
  moreover have "js_trim [] = []" by (simp add: js_trim_def)
  ultimately show ?thesis
    by (simp add: data_lines_def s)
qed

lemma parse_tsv_levels:
  "parse_tsv levels_data =
     Inr [\<lparr> text = [], confidence = Num (- 1), x_min = Num 10, y_min = Num 20,
            x_max = Num 110, y_max = Num 28 \<rparr>,
          \<lparr> text = js ''hello'', confidence = Num 95.5, x_min = Num 10, y_min = Num 20,
            x_max = Num 40, y_max = Num 28 \<rparr>]"
  by (simp add: parse_tsv_def data_lines_levels parse_row_level_line parse_row_example_line)

lemma paragraph_valid: "JStr (js ''paragraph'') \<in> set VALID_BBOX_TYPES"
  by (simp add: VALID_BBOX_TYPES_def)

theorem get_bboxes_all_rows_witness:
  "fst (get_bboxes (stub_platform (js ''output/image_1000.tsv'') (ascii_bytes levels_data))
         1000 1000 (png_request (JStr (js ''paragraph''))) (empty_disk 100)) =
     Responded 200
       (BboxesResult
          [\<lparr> text = [], confidence = Num (- 1), x_min = Num 10, y_min = Num 20,
             x_max = Num 110, y_max = Num 28 \<rparr>,
           \<lparr> text = js ''hello'', confidence = Num 95.5, x_min = Num 10, y_min = Num 20,
             x_max = Num 40, y_max = Num 28 \<rparr>]
          (JStr (js ''paragraph'')))"
proof -
  let ?P = "stub_platform (js ''output/image_1000.tsv'') (ascii_bytes levels_data)"
  let ?req = "png_request (JStr (js ''paragraph''))"
  let ?w1 = "\<lparr>nodes = [js ''uploads/image_1000.png'' \<mapsto> File [0x89, 0x50, 0x4E, 0x47]],
             free = 96, trace = [Wrote (js ''uploads/image_1000.png'')]\<rparr>"
  let ?cmd = "command (imagePath ?P 1000) (outputPath ?P 1000) @ js '' -c tessedit_create_tsv=1''"
  let ?w2 = "?w1\<lparr>nodes := (nodes ?w1)(js ''output/image_1000.tsv'' \<mapsto> File (ascii_bytes levels_data)),
                 trace := trace ?w1 @ [Ran ?cmd]\<rparr>"
  have 1: "\<not> falsy (base64_image ?req)" by (simp add: png_request_def png_nonempty)
  have 2: "isValidBase64Image ?P (base64_image ?req)"
    by (simp add: png_request_def stub_png_valid)
  have 3: "bbox_type ?req \<in> set VALID_BBOX_TYPES"
    by (simp add: png_request_def paragraph_valid)
  have 4: "buffer_from ?P (base64_image ?req) = Inr [0x89, 0x50, 0x4E, 0x47]"
    by (simp add: png_request_def stub_png)
  have 5: "writeFile (imagePath ?P 1000) [0x89, 0x50, 0x4E, 0x47] (empty_disk 100) = (None, ?w1)"
    by (simp only: stub_paths stub_write)
  have 6: "exec ?P ?cmd ?w1 = ((False, []), ?w2)"
    by (rule stub_exec)
  have p: "outputPath ?P 1000 @ js ''.tsv'' = js ''output/image_1000.tsv''"
    by (simp add: stub_paths) (simp add: js_def)
  have 7: "readFile ?P (outputPath ?P 1000 @ js ''.tsv'') ?w2 = Inr levels_data"
    unfolding p by (subst stub_read [where c = "ascii_bytes levels_data"]) (simp_all add: ascii_samples)
  from get_bboxes_all_rows [OF 1 2 3 4 5 6 7 parse_tsv_levels]
  show ?thesis by (simp add: png_request_def)
qed

text \<open>
  Claim C10. When \<open>/api/get-text\<close> has a valid image, the image is written, the
  recogniser reports no error and \<open><outputBase>.txt\<close> is a file, the response is 200 with
  \<open>success: true\<close> and the text of that file trimmed: the file's text is the trimmed
  text between two runs of white space, and the trimmed text neither starts nor ends
  with white space.
\<close>

theorem get_text_trimmed:
  assumes "\<not> falsy (base64_image req)" "isValidBase64Image P (base64_image req)"
    and "buffer_from P (base64_image req) = Inr buffer"
    and "writeFile (imagePath P t1) buffer w = (None, w1)"
    and "exec P (command (imagePath P t1) (outputPath P t2)) w1 = ((False, stderr), w2)"
    and "nodes w2 (outputPath P t2 @ js ''.txt'') = Some (File c)"
  shows "fst (get_text P t1 t2 req w) = Responded 200 (TextResult (js_trim (utf8_decode P c))) \<and>
         (\<exists>a b. utf8_decode P c = a @ js_trim (utf8_decode P c) @ b \<and>
                 list_all is_ws a \<and> list_all is_ws b) \<and>
         (js_trim (utf8_decode P c) \<noteq> [] \<longrightarrow>
            \<not> is_ws (hd (js_trim (utf8_decode P c))) \<and>
            \<not> is_ws (last (js_trim (utf8_decode P c))))"
proof (intro conjI)
  from assms(6) have "readFile P (outputPath P t2 @ js ''.txt'') w2 = Inr (utf8_decode P c)"
    by (simp add: readFile_def)
  from get_text_read [OF assms(1-5) this]
  show "fst (get_text P t1 t2 req w) = Responded 200 (TextResult (js_trim (utf8_decode P c)))"
    by simp
  show "\<exists>a b. utf8_decode P c = a @ js_trim (utf8_decode P c) @ b \<and>
                 list_all is_ws a \<and> list_all is_ws b"
    by (rule js_trim_decomp)
  show "js_trim (utf8_decode P c) \<noteq> [] \<longrightarrow>
            \<not> is_ws (hd (js_trim (utf8_decode P c))) \<and>
            \<not> is_ws (last (js_trim (utf8_decode P c)))"
    by (simp add: js_trim_ends)
qed

lemma js_trim_padded_hello: "js_trim (js ''  hello '') = js ''hello''"
  by (simp add: js_def js_trim_def is_ws_def)

theorem get_text_trimmed_witness:
  "fst (get_text (stub_platform (js ''output/image_1000.txt'') (ascii_bytes (js ''  hello '')))
         1000 1000 (png_request JUndefined) (empty_disk 100)) =
     Responded 200 (TextResult (js ''hello''))"
proof -
  let ?P = "stub_platform (js ''output/image_1000.txt'') (ascii_bytes (js ''  hello ''))"
  let ?req = "png_request JUndefined"
  let ?w1 = "\<lparr>nodes = [js ''uploads/image_1000.png'' \<mapsto> File [0x89, 0x50, 0x4E, 0x47]],
             free = 96, trace = [Wrote (js ''uploads/image_1000.png'')]\<rparr>"
  let ?cmd = "command (imagePath ?P 1000) (outputPath ?P 1000)"
  let ?w2 = "?w1\<lparr>nodes := (nodes ?w1)(js ''output/image_1000.txt'' \<mapsto> File (ascii_bytes (js ''  hello ''))),
                 trace := trace ?w1 @ [Ran ?cmd]\<rparr>"
  have 1: "\<not> falsy (base64_image ?req)" by (simp add: png_request_def png_nonempty)
  have 2: "isValidBase64Image ?P (base64_image ?req)"
    by (simp add: png_request_def stub_png_valid)
  have 4: "buffer_from ?P (base64_image ?req) = Inr [0x89, 0x50, 0x4E, 0x47]"
    by (simp add: png_request_def stub_png)
  have 5: "writeFile (imagePath ?P 1000) [0x89, 0x50, 0x4E, 0x47] (empty_disk 100) = (None, ?w1)"
    by (simp only: stub_paths stub_write)
  have 6: "exec ?P ?cmd ?w1 = ((False, []), ?w2)"
    by (rule stub_exec)
  have p: "outputPath ?P 1000 @ js ''.txt'' = js ''output/image_1000.txt''"
    by (simp add: stub_paths) (simp add: js_def)
  have 7: "nodes ?w2 (outputPath ?P 1000 @ js ''.txt'') = Some (File (ascii_bytes (js ''  hello '')))"
    unfolding p by simp
  have u: "utf8_decode ?P (ascii_bytes (js ''  hello '')) = js ''  hello ''"
    by (simp add: stub_platform_def ascii_samples)
  from get_text_trimmed [OF 1 2 4 5 6 7]
  show ?thesis by (simp add: u js_trim_padded_hello)
qed

lemma data_lines_short: "data_lines short_data = [js ''5'' @ [9] @ js ''1'']"
proof -
  have "split_on 10 short_data = [js ''level'', js ''5'' @ [9] @ js ''1'', []]"
    by (simp add: short_data_def js_def)
  moreover have "js_trim (js ''5'' @ [9] @ js ''1'') \<noteq> []"
    by (simp add: js_trim_empty_iff js_def is_ws_def)
  moreover have "js_trim [] = []" by (simp add: js_trim_def)
  ultimately show ?thesis by (simp add: data_lines_def)
qed

lemma short_data_short: "\<exists>line\<in>set (data_lines short_data). length (split_on 9 line) < 12"
  by (simp add: data_lines_short) (simp add: js_def)

lemma parse_tsv_Inr_iff:
  "(\<exists>bs. parse_tsv data = Inr bs) \<longleftrightarrow>
     (\<forall>line\<in>set (data_lines data). 12 \<le> length (split_on 9 line))"
proof
  assume "\<exists>bs. parse_tsv data = Inr bs"
  then obtain bs where bs: "parse_tsv data = Inr bs" ..
  show "\<forall>line\<in>set (data_lines data). 12 \<le> length (split_on 9 line)"
  proof (rule ccontr)
    assume "\<not> (\<forall>line\<in>set (data_lines data). 12 \<le> length (split_on 9 line))"
    then have "\<exists>line\<in>set (data_lines data). length (split_on 9 line) < 12"
      by (simp add: not_le)
    then have "parse_tsv data = Inl TypeError" by (rule parse_tsv_Inl)
    with bs show False by simp
  qed
next
  assume "\<forall>line\<in>set (data_lines data). 12 \<le> length (split_on 9 line)"
  then have "\<forall>line\<in>set (data_lines data). parse_row line = Inr (projr (parse_row line))"
    by (simp add: parse_row_fields)
  then have "map_throwing parse_row (data_lines data) =
      Inr (map (\<lambda>l. projr (parse_row l)) (data_lines data))"
    by (rule map_throwing_all)
  then show "\<exists>bs. parse_tsv data = Inr bs" by (simp add: parse_tsv_def)
qed

text \<open>
  Claim C5. The parser returns a list of records exactly when every non-blank data line
  has at least twelve fields. A data line with fewer fields makes it throw a TypeError
  (\<open>text\<close> is \<open>undefined\<close>), such inputs exist, and when that happens in
  \<open>/api/get-bboxes\<close> the handler ends with the uncaught exception: it sends no response,
  neither the 200 nor a 500, and does not clean up.
\<close>

theorem short_row_throws:
  "((\<exists>bs. parse_tsv data = Inr bs) \<longleftrightarrow>
      (\<forall>line\<in>set (data_lines data). 12 \<le> length (split_on 9 line))) \<and>
   ((\<exists>line\<in>set (data_lines data). length (split_on 9 line) < 12) \<longrightarrow>
      parse_tsv data = Inl TypeError) \<and>
   (\<exists>d. (\<exists>line\<in>set (data_lines d). length (split_on 9 line) < 12) \<and>
        parse_tsv d = Inl TypeError) \<and>
   (\<not> falsy (base64_image req) \<and> isValidBase64Image P (base64_image req) \<and>
    bbox_type req \<in> set VALID_BBOX_TYPES \<and>
    buffer_from P (base64_image req) = Inr buffer \<and>
    writeFile (imagePath P t1) buffer w = (None, w1) \<and>
    exec P (command (imagePath P t1) (outputPath P t2) @ js '' -c tessedit_create_tsv=1'') w1
      = ((False, stderr), w2) \<and>
    readFile P (outputPath P t2 @ js ''.tsv'') w2 = Inr data \<and>
    (\<exists>line\<in>set (data_lines data). length (split_on 9 line) < 12) \<longrightarrow>
      get_bboxes P t1 t2 req w = (Uncaught TypeError, w2))"
proof (intro conjI impI)
  show "(\<exists>bs. parse_tsv data = Inr bs) \<longleftrightarrow>
      (\<forall>line\<in>set (data_lines data). 12 \<le> length (split_on 9 line))"
    by (rule parse_tsv_Inr_iff)
  show "parse_tsv data = Inl TypeError"
    if "\<exists>line\<in>set (data_lines data). length (split_on 9 line) < 12"
    using that by (rule parse_tsv_Inl)
  show "\<exists>d. (\<exists>line\<in>set (data_lines d). length (split_on 9 line) < 12) \<and>
        parse_tsv d = Inl TypeError"
    using short_data_short parse_tsv_Inl [OF short_data_short] by blast
  show "get_bboxes P t1 t2 req w = (Uncaught TypeError, w2)"
    if h: "\<not> falsy (base64_image req) \<and> isValidBase64Image P (base64_image req) \<and>
    bbox_type req \<in> set VALID_BBOX_TYPES \<and>
    buffer_from P (base64_image req) = Inr buffer \<and>
    writeFile (imagePath P t1) buffer w = (None, w1) \<and>
    exec P (command (imagePath P t1) (outputPath P t2) @ js '' -c tessedit_create_tsv=1'') w1
      = ((False, stderr), w2) \<and>
    readFile P (outputPath P t2 @ js ''.tsv'') w2 = Inr data \<and>
    (\<exists>line\<in>set (data_lines data). length (split_on 9 line) < 12)"
  proof -
    from h have p: "parse_tsv data = Inl TypeError" by (simp add: parse_tsv_Inl)
    from h have 1: "\<not> falsy (base64_image req)" "isValidBase64Image P (base64_image req)"
      and 3: "bbox_type req \<in> set VALID_BBOX_TYPES"
      and 4: "buffer_from P (base64_image req) = Inr buffer"
      and 5: "writeFile (imagePath P t1) buffer w = (None, w1)"
      and 6: "exec P (command (imagePath P t1) (outputPath P t2) @ js '' -c tessedit_create_tsv=1'') w1
               = ((False, stderr), w2)"
      and 7: "readFile P (outputPath P t2 @ js ''.tsv'') w2 = Inr data"
      by simp_all
    from get_bboxes_read [OF 1 3 4 5 6 7] p show ?thesis by simp
  qed
qed

lemma word_nonempty: "js ''word'' \<noteq> []"
  by (simp add: js_def)

lemma word_valid: "JStr (js ''word'') \<in> set VALID_BBOX_TYPES"
  by (simp add: VALID_BBOX_TYPES_def)

theorem short_row_throws_witness:
  "data_lines short_data = [js ''5'' @ [9] @ js ''1''] \<and>
   parse_tsv short_data = Inl TypeError \<and>
   fst (get_bboxes (stub_platform (js ''output/image_1000.tsv'') (ascii_bytes short_data))
         1000 1000 (png_request (JStr (js ''word''))) (empty_disk 100)) = Uncaught TypeError"
proof -
  let ?P = "stub_platform (js ''output/image_1000.tsv'') (ascii_bytes short_data)"
  let ?req = "png_request (JStr (js ''word''))"
  let ?w1 = "\<lparr>nodes = [js ''uploads/image_1000.png'' \<mapsto> File [0x89, 0x50, 0x4E, 0x47]],
             free = 96, trace = [Wrote (js ''uploads/image_1000.png'')]\<rparr>"
  let ?cmd = "command (imagePath ?P 1000) (outputPath ?P 1000) @ js '' -c tessedit_create_tsv=1''"
  let ?w2 = "?w1\<lparr>nodes := (nodes ?w1)(js ''output/image_1000.tsv'' \<mapsto> File (ascii_bytes short_data)),
                 trace := trace ?w1 @ [Ran ?cmd]\<rparr>"
  have 1: "\<not> falsy (base64_image ?req)" by (simp add: png_request_def png_nonempty)
  have 2: "isValidBase64Image ?P (base64_image ?req)"
    by (simp add: png_request_def stub_png_valid)
  have 3: "bbox_type ?req \<in> set VALID_BBOX_TYPES"
    by (simp add: png_request_def word_valid)
  have 4: "buffer_from ?P (base64_image ?req) = Inr [0x89, 0x50, 0x4E, 0x47]"
    by (simp add: png_request_def stub_png)
  have 5: "writeFile (imagePath ?P 1000) [0x89, 0x50, 0x4E, 0x47] (empty_disk 100) = (None, ?w1)"
    by (simp only: stub_paths stub_write)
  have 6: "exec ?P ?cmd ?w1 = ((False, []), ?w2)"
    by (rule stub_exec)
  have p: "outputPath ?P 1000 @ js ''.tsv'' = js ''output/image_1000.tsv''"
    by (simp add: stub_paths) (simp add: js_def)
  have 7: "readFile ?P (outputPath ?P 1000 @ js ''.tsv'') ?w2 = Inr short_data"
    unfolding p by (subst stub_read [where c = "ascii_bytes short_data"]) (simp_all add: ascii_samples)
  note t = short_row_throws [of short_data ?req ?P "[0x89, 0x50, 0x4E, 0x47]" 1000
      "empty_disk 100" ?w1 1000 "[]" ?w2]
  from t have a: "parse_tsv short_data = Inl TypeError"
    using short_data_short by blast
  from t have "get_bboxes ?P 1000 1000 ?req (empty_disk 100) = (Uncaught TypeError, ?w2)"
    using 1 2 3 4 5 6 7 short_data_short by blast
  with a show ?thesis by (simp add: data_lines_short)
qed

lemma stub_write_full:
  "writeFile (js ''uploads/image_1000.png'') [0x89, 0x50, 0x4E, 0x47] (empty_disk 2) =
     (Some ENOSPC, \<lparr>nodes = [js ''uploads/image_1000.png'' \<mapsto> File [0x89, 0x50]],
             free = 0, trace = [Wrote (js ''uploads/image_1000.png'')]\<rparr>)"
  by (simp add: writeFile_def empty_disk_def)

text \<open>
  Claim C1. On a disk with two free bytes the four bytes of the image do not fit:
  \<open>fs.writeFile\<close> fails after writing two. Both handlers answer 500 without calling
  \<open>cleanupFiles\<close>, and the shortened image file is still there when the response is
  sent.
\<close>

theorem write_failure_leaves_file:
  "get_text (stub_platform [] []) 1000 1000 (png_request (JStr (js ''word''))) (empty_disk 2) =
     (Responded 500 (Failure (js ''Error saving image.'')),
      \<lparr>nodes = [js ''uploads/image_1000.png'' \<mapsto> File [0x89, 0x50]], free = 0,
        trace = [Wrote (js ''uploads/image_1000.png''), Logged (js ''Write File Error:'')]\<rparr>) \<and>
   get_bboxes (stub_platform [] []) 1000 1000 (png_request (JStr (js ''word''))) (empty_disk 2) =
     (Responded 500 (Failure (js ''Error saving image.'')),
      \<lparr>nodes = [js ''uploads/image_1000.png'' \<mapsto> File [0x89, 0x50]], free = 0,
        trace = [Wrote (js ''uploads/image_1000.png''), Logged (js ''Write File Error:'')]\<rparr>)"
  by (simp add: get_text_def get_bboxes_def png_request_def png_nonempty stub_png_valid stub_png
        stub_paths stub_write_full console_error_def word_valid word_nonempty)

section \<open>Properties of \<open>cleanupFiles\<close>\<close>

lemma unlink_if_exists_eq:
  "unlink_if_exists p w =
     (case nodes w p of
        None \<Rightarrow> Inr w
      | Some Dir \<Rightarrow> Inl EISDIR
      | Some (File c) \<Rightarrow>
          Inr (w\<lparr>nodes := (nodes w)(p := None), free := free w + length c,
                 trace := trace w @ [Unlinked p]\<rparr>))"
  by (simp add: unlink_if_exists_def existsSync_def unlinkSync_def
        split: option.splits node.splits)

lemma unlink_if_exists_Inr:
  assumes "unlink_if_exists p w = Inr w'"
  shows "nodes w' = (nodes w)(p := None)" and "nodes w p \<noteq> Some Dir"
  using assms by (auto simp: unlink_if_exists_eq split: option.splits node.splits)

lemma unlink_if_exists_Inl:
  assumes "unlink_if_exists p w = Inl e"
  shows "nodes w p = Some Dir"
  using assms by (auto simp: unlink_if_exists_eq split: option.splits node.splits)

lemma unlink_if_exists_gone:
  "nodes w p = None \<Longrightarrow> unlink_if_exists p w = Inr w"
  by (simp add: unlink_if_exists_def existsSync_def)

lemma unlink_if_exists_dir:
  "nodes w p = Some Dir \<Longrightarrow> unlink_if_exists p w = Inl EISDIR"
  by (simp add: unlink_if_exists_def existsSync_def unlinkSync_def)

lemma nodes_console_error [simp]:
  "nodes (console_error l w) = nodes w" "free (console_error l w) = free w"
  by (simp_all add: console_error_def)

text \<open>What a run of cleanupFiles leaves: one of four shapes.\<close>

lemma cleanupFiles_cases:
  fixes ip ob w
  defines "p1 \<equiv> ip" and "p2 \<equiv> ob @ js ''.txt''" and "p3 \<equiv> ob @ js ''.tsv''"
  obtains
    (stop1) "nodes w p1 = Some Dir" "cleanupFiles ip ob w = console_error (js ''Cleanup error:'') w"
  | (stop2) w1 where "unlink_if_exists p1 w = Inr w1" "nodes w1 p2 = Some Dir"
      "cleanupFiles ip ob w = console_error (js ''Cleanup error:'') w1"
  | (stop3) w1 w2 where "unlink_if_exists p1 w = Inr w1" "unlink_if_exists p2 w1 = Inr w2"
      "nodes w2 p3 = Some Dir" "cleanupFiles ip ob w = console_error (js ''Cleanup error:'') w2"
  | (finished) w1 w2 w3 where "unlink_if_exists p1 w = Inr w1" "unlink_if_exists p2 w1 = Inr w2"
      "unlink_if_exists p3 w2 = Inr w3" "cleanupFiles ip ob w = w3"
proof (cases "unlink_if_exists p1 w")
  case (Inl e)
  then show ?thesis using stop1 unlink_if_exists_Inl [OF Inl]
    by (simp add: cleanupFiles_def p1_def)
next
  case a: (Inr w1)
  show ?thesis
  proof (cases "unlink_if_exists p2 w1")
    case (Inl e)
    then show ?thesis using stop2 [OF a] unlink_if_exists_Inl [OF Inl] a
      by (simp add: cleanupFiles_def p1_def p2_def)
  next
    case b: (Inr w2)
    show ?thesis
    proof (cases "unlink_if_exists p3 w2")
      case (Inl e)
      then show ?thesis using stop3 [OF a b] unlink_if_exists_Inl [OF Inl] a b
        by (simp add: cleanupFiles_def p1_def p2_def p3_def)
    next
      case c: (Inr w3)
      then show ?thesis using finished [OF a b c] a b
        by (simp add: cleanupFiles_def p1_def p2_def p3_def)
    qed
  qed
qed

lemma cleanupFiles_other:
  assumes "p \<noteq> ip" "p \<noteq> ob @ js ''.txt''" "p \<noteq> ob @ js ''.tsv''"
  shows "nodes (cleanupFiles ip ob w) p = nodes w p"
  using assms
  by (cases rule: cleanupFiles_cases [where ip = ip and ob = ob and w = w]) (auto dest!: unlink_if_exists_Inr(1))

lemma cleanupFiles_removes:
  assumes "nodes w ip \<noteq> Some Dir" "nodes w (ob @ js ''.txt'') \<noteq> Some Dir"
    "nodes w (ob @ js ''.tsv'') \<noteq> Some Dir"
  shows "nodes (cleanupFiles ip ob w) ip = None \<and>
         nodes (cleanupFiles ip ob w) (ob @ js ''.txt'') = None \<and>
         nodes (cleanupFiles ip ob w) (ob @ js ''.tsv'') = None"
  using assms
  by (cases rule: cleanupFiles_cases [where ip = ip and ob = ob and w = w])
     (auto dest!: unlink_if_exists_Inr(1) split: if_splits)

lemma cleanupFiles_idem:
  "nodes (cleanupFiles ip ob (cleanupFiles ip ob w)) = nodes (cleanupFiles ip ob w) \<and>
   free (cleanupFiles ip ob (cleanupFiles ip ob w)) = free (cleanupFiles ip ob w)"
proof (cases rule: cleanupFiles_cases [where ip = ip and ob = ob and w = w])
  case stop1
  then show ?thesis
    by (simp add: cleanupFiles_def unlink_if_exists_dir)
next
  case (stop2 w1)
  from unlink_if_exists_Inr [OF stop2(1)] stop2(2)
  have "nodes w1 ip = None" by (auto split: if_splits)
  with stop2 show ?thesis
    by (simp add: cleanupFiles_def unlink_if_exists_gone unlink_if_exists_dir)
next
  case (stop3 w1 w2)
  from unlink_if_exists_Inr [OF stop3(1)] unlink_if_exists_Inr [OF stop3(2)] stop3(3)
  have "nodes w2 ip = None" "nodes w2 (ob @ js ''.txt'') = None" by (auto split: if_splits)
  with stop3 show ?thesis
    by (simp add: cleanupFiles_def unlink_if_exists_gone unlink_if_exists_dir)
next
  case (finished w1 w2 w3)
  from unlink_if_exists_Inr [OF finished(1)] unlink_if_exists_Inr [OF finished(2)]
    unlink_if_exists_Inr [OF finished(3)]
  have "nodes w3 ip = None" "nodes w3 (ob @ js ''.txt'') = None" "nodes w3 (ob @ js ''.tsv'') = None"
    by (auto split: if_splits)
  with finished show ?thesis
    by (simp add: cleanupFiles_def unlink_if_exists_gone)
qed

lemma cleanupFiles_logs:
  assumes "nodes w ip = Some Dir \<or> nodes w (ob @ js ''.txt'') = Some Dir \<or>
           nodes w (ob @ js ''.tsv'') = Some Dir"
  shows "last (trace (cleanupFiles ip ob w)) = Logged (js ''Cleanup error:'')"
proof (cases rule: cleanupFiles_cases [where ip = ip and ob = ob and w = w])
  case (finished w1 w2 w3)
  from unlink_if_exists_Inr [OF finished(1)] unlink_if_exists_Inr [OF finished(2)]
    unlink_if_exists_Inr [OF finished(3)] assms
  show ?thesis by (auto split: if_splits)
qed (simp_all add: console_error_def)

text \<open>
  Claim C9. For every image path, output basename and state, \<open>cleanupFiles\<close> returns
  normally and is idempotent: a second run leaves the files and the free space as the
  first run left them. It touches no path besides the image path, \<open><outputBase>.txt\<close>
  and \<open><outputBase>.tsv\<close>. When none of the three is a directory, so that no
  \<open>unlinkSync\<close> throws, none of them exists afterwards; when one is, the exception is
  swallowed and the last effect of the run is the log entry of the \<open>catch\<close>.
\<close>

theorem cleanupFiles_best_effort:
  "nodes (cleanupFiles ip ob (cleanupFiles ip ob w)) = nodes (cleanupFiles ip ob w) \<and>
   free (cleanupFiles ip ob (cleanupFiles ip ob w)) = free (cleanupFiles ip ob w) \<and>
   (\<forall>p. p \<noteq> ip \<and> p \<noteq> ob @ js ''.txt'' \<and> p \<noteq> ob @ js ''.tsv'' \<longrightarrow>
        nodes (cleanupFiles ip ob w) p = nodes w p) \<and>
   (nodes w ip \<noteq> Some Dir \<and> nodes w (ob @ js ''.txt'') \<noteq> Some Dir \<and>
    nodes w (ob @ js ''.tsv'') \<noteq> Some Dir \<longrightarrow>
      \<not> existsSync ip (cleanupFiles ip ob w) \<and>
      \<not> existsSync (ob @ js ''.txt'') (cleanupFiles ip ob w) \<and>
      \<not> existsSync (ob @ js ''.tsv'') (cleanupFiles ip ob w)) \<and>
   (nodes w ip = Some Dir \<or> nodes w (ob @ js ''.txt'') = Some Dir \<or>
    nodes w (ob @ js ''.tsv'') = Some Dir \<longrightarrow>
      last (trace (cleanupFiles ip ob w)) = Logged (js ''Cleanup error:''))"
  using cleanupFiles_idem [of ip ob w] cleanupFiles_removes [of w ip ob]
    cleanupFiles_logs [of w ip ob]
  by (simp add: cleanupFiles_other existsSync_def)

lemma staged_paths_distinct:
  "js ''uploads/image_1.png'' \<noteq> js ''output/image_1.txt''"
  "js ''uploads/image_1.png'' \<noteq> js ''output/image_1.tsv''"
  "js ''output/image_1.txt'' \<noteq> js ''output/image_1.tsv''"
  "js ''output/image_1'' @ js ''.txt'' = js ''output/image_1.txt''"
  "js ''output/image_1'' @ js ''.tsv'' = js ''output/image_1.tsv''"
  by (simp_all add: js_def)

theorem cleanupFiles_best_effort_witness:
  "existsSync (js ''uploads/image_1.png'') staged_world \<and>
   existsSync (js ''output/image_1.txt'') staged_world \<and>
   \<not> existsSync (js ''uploads/image_1.png'')
       (cleanupFiles (js ''uploads/image_1.png'') (js ''output/image_1'') staged_world) \<and>
   \<not> existsSync (js ''output/image_1.txt'')
       (cleanupFiles (js ''uploads/image_1.png'') (js ''output/image_1'') staged_world) \<and>
   \<not> existsSync (js ''output/image_1.tsv'')
       (cleanupFiles (js ''uploads/image_1.png'') (js ''output/image_1'') staged_world)"
proof -
  have h: "nodes staged_world (js ''uploads/image_1.png'') \<noteq> Some Dir"
    "nodes staged_world (js ''output/image_1'' @ js ''.txt'') \<noteq> Some Dir"
    "nodes staged_world (js ''output/image_1'' @ js ''.tsv'') \<noteq> Some Dir"
    by (simp_all add: staged_world_def staged_paths_distinct)
  have e: "existsSync (js ''uploads/image_1.png'') staged_world"
    "existsSync (js ''output/image_1.txt'') staged_world"
    by (simp_all add: staged_world_def existsSync_def staged_paths_distinct)
  from cleanupFiles_best_effort [of "js ''uploads/image_1.png''" "js ''output/image_1''" staged_world] h
  have "\<not> existsSync (js ''uploads/image_1.png'')
       (cleanupFiles (js ''uploads/image_1.png'') (js ''output/image_1'') staged_world) \<and>
   \<not> existsSync (js ''output/image_1'' @ js ''.txt'')
       (cleanupFiles (js ''uploads/image_1.png'') (js ''output/image_1'') staged_world) \<and>
   \<not> existsSync (js ''output/image_1'' @ js ''.tsv'')
       (cleanupFiles (js ''uploads/image_1.png'') (js ''output/image_1'') staged_world)"
    by blast
  with e show ?thesis by (simp add: staged_paths_distinct)
qed

theorem cleanupFiles_blocked_counterexample:
  "nodes blocked_world (js ''output/image_1.tsv'') = Some (File [2]) \<and>
   nodes (cleanupFiles (js ''uploads/image_1.png'') (js ''output/image_1'') blocked_world)
     (js ''output/image_1.tsv'') = Some (File [2])"
  by (simp add: cleanupFiles_def unlink_if_exists_eq blocked_world_def staged_paths_distinct
        console_error_def)

section \<open>Properties of the image validator\<close>

lemma hex_digit_inj: "a < 16 \<Longrightarrow> b < 16 \<Longrightarrow> hex_digit a = hex_digit b \<Longrightarrow> a = b"
  by (simp add: hex_digit_def split: if_splits)

lemma hex_byte_inj: "hex_byte a = hex_byte b \<longleftrightarrow> a = b"
proof
  assume h: "hex_byte a = hex_byte b"
  then have "hex_digit (unat a div 16) = hex_digit (unat b div 16)"
    and "hex_digit (unat a mod 16) = hex_digit (unat b mod 16)"
    by (simp_all add: hex_byte_def)
  moreover have "unat a div 16 < 16" "unat b div 16 < 16"
    using unsigned_less [of a, where ?'a = nat] unsigned_less [of b, where ?'a = nat] by simp_all
  ultimately have "unat a div 16 = unat b div 16" "unat a mod 16 = unat b mod 16"
    by (simp_all add: hex_digit_inj)
  then have "unat a = unat b" by (metis div_mult_mod_eq)
  then show "a = b" by (simp add: word_unat_eq_iff)
qed simp

lemma hex_digit_lower: "n < 16 \<Longrightarrow> \<not> (65 \<le> hex_digit n \<and> hex_digit n \<le> 90)"
  by (simp add: hex_digit_def)

lemma toLowerCase_hex_byte: "toLowerCase (hex_byte b) = hex_byte b"
proof -
  have "unat b div 16 < 16" using unsigned_less [of b, where ?'a = nat] by simp
  then show ?thesis
    using hex_digit_lower [of "unat b div 16"] hex_digit_lower [of "unat b mod 16"]
    by (simp add: toLowerCase_def hex_byte_def)
qed

lemma toLowerCase_append: "toLowerCase (a @ b) = toLowerCase a @ toLowerCase b"
  by (simp add: toLowerCase_def)

lemma toLowerCase_hex: "toLowerCase (concat (map hex_byte bs)) = concat (map hex_byte bs)"
  by (induction bs) (simp_all add: toLowerCase_append toLowerCase_hex_byte, simp add: toLowerCase_def)

lemma prefix_hex:
  "prefix (hex_byte a @ hex_byte b) (to_hex buf 0 4) \<longleftrightarrow> prefix [a, b] buf"
proof (cases buf)
  case Nil
  then show ?thesis by (simp add: to_hex_def hex_byte_def)
next
  case (Cons x xs)
  show ?thesis
  proof (cases xs)
    case Nil
    with Cons show ?thesis by (simp add: to_hex_def hex_byte_def)
  next
    case (Cons y ys)
    have "prefix (hex_byte a @ hex_byte b) (hex_byte x @ hex_byte y @ concat (map hex_byte (take 2 ys)))
            \<longleftrightarrow> hex_byte a = hex_byte x \<and> hex_byte b = hex_byte y"
      by (auto simp: hex_byte_def)
    with Cons \<open>buf = x # xs\<close> show ?thesis
      by (simp add: to_hex_def hex_byte_inj)
  qed
qed

lemma signatures_hex:
  "js ''ffd8'' = hex_byte 0xFF @ hex_byte 0xD8"
  "js ''8950'' = hex_byte 0x89 @ hex_byte 0x50"
  "js ''4749'' = hex_byte 0x47 @ hex_byte 0x49"
  by (simp_all add: js_def hex_byte_def hex_digit_def)

lemma valid_hex:
  "isValidBase64Image P v \<longleftrightarrow>
     (\<exists>buf. buffer_from P v = Inr buf \<and>
        (prefix (js ''ffd8'') (to_hex buf 0 4) \<or> prefix (js ''8950'') (to_hex buf 0 4) \<or>
         prefix (js ''4749'') (to_hex buf 0 4)))"
proof -
  have "toLowerCase (to_hex buf 0 4) = to_hex buf 0 4" for buf
    unfolding to_hex_def by (rule toLowerCase_hex)
  then show ?thesis
    by (cases "buffer_from P v") (simp_all add: isValidBase64Image_def signatures_def Let_def)
qed

text \<open>
  Claim C4. \<open>isValidBase64Image\<close> is true exactly when the decoding succeeds and the hex
  rendering of the first four bytes starts with \<open>ffd8\<close>, \<open>8950\<close> or \<open>4749\<close>, which is
  the same as the buffer starting with the bytes \<open>FF D8\<close>, \<open>89 50\<close> or \<open>47 49\<close>. A buffer
  starting with four zero bytes is rejected, and when the decoding throws the result is
  \<open>false\<close>, not an exception.
\<close>

theorem isValidBase64Image_signature:
  "(isValidBase64Image P v \<longleftrightarrow>
     (\<exists>buf. buffer_from P v = Inr buf \<and>
        (prefix (js ''ffd8'') (to_hex buf 0 4) \<or> prefix (js ''8950'') (to_hex buf 0 4) \<or>
         prefix (js ''4749'') (to_hex buf 0 4)))) \<and>
   (isValidBase64Image P v \<longleftrightarrow>
     (\<exists>buf. buffer_from P v = Inr buf \<and>
        (prefix [0xFF, 0xD8] buf \<or> prefix [0x89, 0x50] buf \<or> prefix [0x47, 0x49] buf))) \<and>
   (buffer_from P v = Inr (0 # 0 # 0 # 0 # rest) \<longrightarrow> \<not> isValidBase64Image P v) \<and>
   (buffer_from P v = Inl e \<longrightarrow> \<not> isValidBase64Image P v)"
proof (intro conjI impI)
  show "isValidBase64Image P v \<longleftrightarrow>
     (\<exists>buf. buffer_from P v = Inr buf \<and>
        (prefix (js ''ffd8'') (to_hex buf 0 4) \<or> prefix (js ''8950'') (to_hex buf 0 4) \<or>
         prefix (js ''4749'') (to_hex buf 0 4)))"
    by (rule valid_hex)
  show b: "isValidBase64Image P v \<longleftrightarrow>
     (\<exists>buf. buffer_from P v = Inr buf \<and>
        (prefix [0xFF, 0xD8] buf \<or> prefix [0x89, 0x50] buf \<or> prefix [0x47, 0x49] buf))"
    by (simp only: valid_hex signatures_hex prefix_hex)
  show "\<not> isValidBase64Image P v" if "buffer_from P v = Inr (0 # 0 # 0 # 0 # rest)"
    using that by (simp add: b)
  show "\<not> isValidBase64Image P v" if "buffer_from P v = Inl e"
    using that by (simp add: b)
qed

theorem isValidBase64Image_signature_witness:
  "buffer_from (stub_platform [] []) (JStr (js ''iVBORw=='')) = Inr [0x89, 0x50, 0x4E, 0x47] \<and>
   isValidBase64Image (stub_platform [] []) (JStr (js ''iVBORw=='')) \<and>
   buffer_from (stub_platform [] []) (JStr (js ''AAAAAA=='')) = Inr [0, 0, 0, 0] \<and>
   \<not> isValidBase64Image (stub_platform [] []) (JStr (js ''AAAAAA=='')) \<and>
   buffer_from (stub_platform [] []) JNull = Inl TypeError \<and>
   \<not> isValidBase64Image (stub_platform [] []) JNull"
proof -
  let ?P = "stub_platform [] []"
  have 1: "buffer_from ?P (JStr (js ''iVBORw=='')) = Inr [0x89, 0x50, 0x4E, 0x47]"
    by (rule stub_png)
  have 2: "buffer_from ?P (JStr (js ''AAAAAA=='')) = Inr (0 # 0 # 0 # 0 # [])"
    by (simp add: stub_platform_def stub_decode_def) (simp add: js_def)
  have 3: "buffer_from ?P JNull = Inl TypeError"
    by (simp add: stub_platform_def stub_decode_def)
  from isValidBase64Image_signature [of ?P "JStr (js ''iVBORw=='')", THEN conjunct2, THEN conjunct1] 1
  have a: "isValidBase64Image ?P (JStr (js ''iVBORw==''))" by simp
  from isValidBase64Image_signature [of ?P "JStr (js ''AAAAAA=='')" "[]"] 2
  have b: "\<not> isValidBase64Image ?P (JStr (js ''AAAAAA==''))" by blast
  from isValidBase64Image_signature [of ?P JNull _ TypeError] 3
  have c: "\<not> isValidBase64Image ?P JNull" by blast
  from 1 2 3 a b c show ?thesis by simp
qed

section \<open>Properties of staging\<close>

lemma digits_nonempty: "digits n \<noteq> []"
  by (subst digits.simps) simp

lemma digits_range: "c \<in> set (digits n) \<Longrightarrow> 48 \<le> c \<and> c \<le> 57"
proof (induction n rule: digits.induct)
  case (1 n)
  show ?case
  proof (cases "n < 10")
    case True
    with "1.prems" show ?thesis by (subst (asm) digits.simps) simp
  next
    case False
    from "1.prems" have "c \<in> set (digits (n div 10)) \<or> c = 48 + n mod 10"
      by (subst (asm) digits.simps) (auto simp: False)
    then show ?thesis
    proof
      assume "c \<in> set (digits (n div 10))"
      with "1.IH" False show ?thesis by simp
    next
      have "n mod 10 < 10" by simp
      moreover assume "c = 48 + n mod 10"
      ultimately show ?thesis by linarith
    qed
  qed
qed

lemma digits_inj: "digits n = digits m \<Longrightarrow> n = m"
proof (induction n arbitrary: m rule: digits.induct)
  case (1 n)
  have n: "digits n = (if n < 10 then [48 + n] else digits (n div 10) @ [48 + n mod 10])"
    by (rule digits.simps)
  have m: "digits m = (if m < 10 then [48 + m] else digits (m div 10) @ [48 + m mod 10])"
    by (rule digits.simps)
  show ?case
  proof (cases "n < 10")
    case True
    show ?thesis
    proof (cases "m < 10")
      case mt: True
      with True "1.prems" n m show ?thesis by simp
    next
      case mf: False
      with True "1.prems" n m have "[48 + n] = digits (m div 10) @ [48 + m mod 10]" by simp
      then have "digits (m div 10) = []" by simp
      with digits_nonempty show ?thesis by blast
    qed
  next
    case False
    show ?thesis
    proof (cases "m < 10")
      case mt: True
      with False "1.prems" n m have "digits (n div 10) @ [48 + n mod 10] = [48 + m]" by simp
      then have "digits (n div 10) = []" by simp
      with digits_nonempty show ?thesis by blast
    next
      case mf: False
      with False "1.prems" n m
      have "digits (n div 10) @ [48 + n mod 10] = digits (m div 10) @ [48 + m mod 10]" by simp
      then have d: "digits (n div 10) = digits (m div 10)" and r: "n mod 10 = m mod 10"
        by simp_all
      from "1.IH" [OF False d] have "n div 10 = m div 10" .
      with r show ?thesis by (metis div_mult_mod_eq)
    qed
  qed
qed

lemma digits_no_minus: "digits n \<noteq> 45 # s"
proof
  assume "digits n = 45 # s"
  then have "45 \<in> set (digits n)" by simp
  then show False by (auto dest: digits_range)
qed

lemma number_to_string_inj: "number_to_string i = number_to_string j \<longleftrightarrow> i = j"
proof
  assume h: "number_to_string i = number_to_string j"
  show "i = j"
  proof (cases "i < 0")
    case True
    show ?thesis
    proof (cases "j < 0")
      case jt: True
      with True h have "nat (- i) = nat (- j)"
        by (simp add: number_to_string_def digits_inj)
      with True jt show ?thesis by simp
    next
      case jf: False
      with True h digits_no_minus [of "nat j"] show ?thesis
        by (simp add: number_to_string_def) metis
    qed
  next
    case False
    show ?thesis
    proof (cases "j < 0")
      case jt: True
      with False h digits_no_minus [of "nat i"] show ?thesis
        by (simp add: number_to_string_def)
    next
      case jf: False
      with False h have "nat i = nat j"
        by (simp add: number_to_string_def digits_inj)
      with False jf show ?thesis by simp
    qed
  qed
qed simp

lemma imagePath_inj: "imagePath P t = imagePath P t' \<longleftrightarrow> t = t'"
  by (simp add: imagePath_def path_join_def number_to_string_inj)

lemma outputPath_inj: "outputPath P t = outputPath P t' \<longleftrightarrow> t = t'"
  by (simp add: outputPath_def path_join_def number_to_string_inj)

lemma writeFile_ok_trace:
  "writeFile p buf w = (None, w1) \<Longrightarrow> trace w1 = trace w @ [Wrote p]"
  by (auto simp: writeFile_def Let_def split: option.splits node.splits if_splits)

lemma exec_trace:
  "exec P cmd w = (r, w2) \<Longrightarrow> trace w2 = trace w @ [Ran cmd]"
  by (auto simp: exec_def split: prod.splits)

lemma unlink_if_exists_trace:
  "unlink_if_exists p w = Inr w' \<Longrightarrow> prefix (trace w) (trace w')"
  by (auto simp: unlink_if_exists_eq split: option.splits node.splits)

lemma console_error_trace: "prefix (trace w) (trace (console_error l w))"
  by (simp add: console_error_def)

lemma cleanupFiles_trace: "prefix (trace w) (trace (cleanupFiles ip ob w))"
proof (cases rule: cleanupFiles_cases [where ip = ip and ob = ob and w = w])
  case stop1
  then show ?thesis by (simp add: console_error_trace)
next
  case (stop2 w1)
  from unlink_if_exists_trace [OF stop2(1)] console_error_trace [of w1]
  show ?thesis unfolding stop2(3) by (rule prefix_order.trans)
next
  case (stop3 w1 w2)
  from unlink_if_exists_trace [OF stop3(1)] unlink_if_exists_trace [OF stop3(2)]
  have "prefix (trace w) (trace w2)" by (rule prefix_order.trans)
  from this console_error_trace [of w2]
  show ?thesis unfolding stop3(4) by (rule prefix_order.trans)
next
  case (finished w1 w2 w3)
  from unlink_if_exists_trace [OF finished(1)] unlink_if_exists_trace [OF finished(2)]
  have "prefix (trace w) (trace w2)" by (rule prefix_order.trans)
  from this unlink_if_exists_trace [OF finished(3)]
  show ?thesis unfolding finished(4) by (rule prefix_order.trans)
qed

lemma cleanup_after_log:
  "prefix (trace w) (trace (cleanupFiles ip ob (console_error l w)))"
  using console_error_trace [of w l] cleanupFiles_trace [of "console_error l w" ip ob]
  by (rule prefix_order.trans)

lemma get_text_staging:
  assumes "\<not> falsy (base64_image req)" "isValidBase64Image P (base64_image req)"
    and "buffer_from P (base64_image req) = Inr buffer"
    and "writeFile (imagePath P t1) buffer w = (None, w1)"
  shows "prefix (trace w @ [Wrote (imagePath P t1),
                            Ran (command (imagePath P t1) (outputPath P t2))])
           (trace (snd (get_text P t1 t2 req w)))"
proof -
  obtain err stderr w2 where
    e: "exec P (command (imagePath P t1) (outputPath P t2)) w1 = ((err, stderr), w2)"
    by (metis surj_pair)
  from exec_trace [OF e] writeFile_ok_trace [OF assms(4)]
  have t: "trace w2 = trace w @ [Wrote (imagePath P t1),
                            Ran (command (imagePath P t1) (outputPath P t2))]"
    by simp
  show ?thesis
    unfolding t [symmetric] using assms e
    by (cases err; cases "readFile P (outputPath P t2 @ js ''.txt'') w2")
       (simp_all add: get_text_def cleanup_after_log cleanupFiles_trace)
qed

lemma get_bboxes_staging:
  assumes "\<not> falsy (base64_image req)" "isValidBase64Image P (base64_image req)"
    and "bbox_type req \<in> set VALID_BBOX_TYPES"
    and "buffer_from P (base64_image req) = Inr buffer"
    and "writeFile (imagePath P t1) buffer w = (None, w1)"
  shows "prefix (trace w @ [Wrote (imagePath P t1),
                            Ran (command (imagePath P t1) (outputPath P t2)
                                 @ js '' -c tessedit_create_tsv=1'')])
           (trace (snd (get_bboxes P t1 t2 req w)))"
proof -
  let ?cmd = "command (imagePath P t1) (outputPath P t2) @ js '' -c tessedit_create_tsv=1''"
  obtain err stderr w2 where e: "exec P ?cmd w1 = ((err, stderr), w2)"
    by (metis surj_pair)
  from exec_trace [OF e] writeFile_ok_trace [OF assms(5)]
  have t: "trace w2 = trace w @ [Wrote (imagePath P t1), Ran ?cmd]"
    by simp
  have v: "\<not> falsy (bbox_type req)" using assms(3) by (rule valid_not_falsy)
  show ?thesis
    unfolding t [symmetric] using assms v e
    by (cases err; cases "readFile P (outputPath P t2 @ js ''.tsv'') w2")
       (simp_all add: get_bboxes_def cleanup_after_log cleanupFiles_trace split: sum.splits)
qed

text \<open>
  Claim C2. The staged pair is \<open>uploads/image_<t1>.png\<close> and \<open>output/image_<t2>\<close>, where
  \<open>t1\<close> and \<open>t2\<close> are the values of the two clock reads of the handler, so both carry
  the same token when the two reads agree. Two image paths are equal exactly when their
  clock values are, and so are two output basenames. A request that passes validation
  writes the image to that image path, and once the write succeeds it runs the
  recogniser on that image path and that output basename.
\<close>

theorem staged_pair:
  "imagePath P t1 = js ''uploads'' @ sep P @ js ''image_'' @ number_to_string t1 @ js ''.png'' \<and>
   outputPath P t2 = js ''output'' @ sep P @ js ''image_'' @ number_to_string t2 \<and>
   (imagePath P t1 = imagePath P t1' \<longleftrightarrow> t1 = t1') \<and>
   (outputPath P t2 = outputPath P t2' \<longleftrightarrow> t2 = t2') \<and>
   (\<not> falsy (base64_image req) \<and> isValidBase64Image P (base64_image req) \<and>
    buffer_from P (base64_image req) = Inr buffer \<and>
    writeFile (imagePath P t1) buffer w = (None, w1) \<longrightarrow>
      prefix (trace w @ [Wrote (imagePath P t1),
                         Ran (command (imagePath P t1) (outputPath P t2))])
        (trace (snd (get_text P t1 t2 req w)))) \<and>
   (\<not> falsy (base64_image req) \<and> isValidBase64Image P (base64_image req) \<and>
    bbox_type req \<in> set VALID_BBOX_TYPES \<and>
    buffer_from P (base64_image req) = Inr buffer \<and>
    writeFile (imagePath P t1) buffer w = (None, w1) \<longrightarrow>
      prefix (trace w @ [Wrote (imagePath P t1),
                         Ran (command (imagePath P t1) (outputPath P t2)
                              @ js '' -c tessedit_create_tsv=1'')])
        (trace (snd (get_bboxes P t1 t2 req w))))"
proof (intro conjI impI)
  show "imagePath P t1 = js ''uploads'' @ sep P @ js ''image_'' @ number_to_string t1 @ js ''.png''"
    by (simp add: imagePath_def path_join_def)
  show "outputPath P t2 = js ''output'' @ sep P @ js ''image_'' @ number_to_string t2"
    by (simp add: outputPath_def path_join_def)
  show "imagePath P t1 = imagePath P t1' \<longleftrightarrow> t1 = t1'" by (rule imagePath_inj)
  show "outputPath P t2 = outputPath P t2' \<longleftrightarrow> t2 = t2'" by (rule outputPath_inj)
  show "prefix (trace w @ [Wrote (imagePath P t1),
                         Ran (command (imagePath P t1) (outputPath P t2))])
        (trace (snd (get_text P t1 t2 req w)))"
    if "\<not> falsy (base64_image req) \<and> isValidBase64Image P (base64_image req) \<and>
    buffer_from P (base64_image req) = Inr buffer \<and>
    writeFile (imagePath P t1) buffer w = (None, w1)"
    using that by (intro get_text_staging [where buffer = buffer and ?w1.0 = w1]) simp_all
  show "prefix (trace w @ [Wrote (imagePath P t1),
                         Ran (command (imagePath P t1) (outputPath P t2)
                              @ js '' -c tessedit_create_tsv=1'')])
        (trace (snd (get_bboxes P t1 t2 req w)))"
    if "\<not> falsy (base64_image req) \<and> isValidBase64Image P (base64_image req) \<and>
    bbox_type req \<in> set VALID_BBOX_TYPES \<and>
    buffer_from P (base64_image req) = Inr buffer \<and>
    writeFile (imagePath P t1) buffer w = (None, w1)"
    using that by (intro get_bboxes_staging [where buffer = buffer and ?w1.0 = w1]) simp_all
qed

lemma number_to_string_1000:
  "number_to_string 1000 = js ''1000''" "number_to_string 1001 = js ''1001''"
  by (simp_all add: number_to_string_def digits_1000)

theorem staged_pair_witness:
  "imagePath (stub_platform [] []) 1000 = js ''uploads/image_1000.png'' \<and>
   outputPath (stub_platform [] []) 1000 = js ''output/image_1000'' \<and>
   prefix [Wrote (js ''uploads/image_1000.png''),
           Ran (command (js ''uploads/image_1000.png'') (js ''output/image_1000''))]
     (trace (snd (get_text (stub_platform [] []) 1000 1000 (png_request JUndefined)
                    (empty_disk 100))))"
proof -
  let ?P = "stub_platform [] []"
  let ?req = "png_request JUndefined"
  let ?w1 = "\<lparr>nodes = [js ''uploads/image_1000.png'' \<mapsto> File [0x89, 0x50, 0x4E, 0x47]],
             free = 96, trace = [Wrote (js ''uploads/image_1000.png'')]\<rparr>"
  have 1: "\<not> falsy (base64_image ?req)" by (simp add: png_request_def png_nonempty)
  have 2: "isValidBase64Image ?P (base64_image ?req)"
    by (simp add: png_request_def stub_png_valid)
  have 4: "buffer_from ?P (base64_image ?req) = Inr [0x89, 0x50, 0x4E, 0x47]"
    by (simp add: png_request_def stub_png)
  have 5: "writeFile (imagePath ?P 1000) [0x89, 0x50, 0x4E, 0x47] (empty_disk 100) = (None, ?w1)"
    by (simp only: stub_paths stub_write)
  note t = staged_pair [of ?P 1000 1000 1000 1000 ?req "[0x89, 0x50, 0x4E, 0x47]"
      "empty_disk 100" ?w1]
  from t have a: "imagePath ?P 1000 = js ''uploads/image_1000.png''"
    by (simp add: number_to_string_1000 stub_platform_def) (simp add: js_def)
  from t have b: "outputPath ?P 1000 = js ''output/image_1000''"
    by (simp add: number_to_string_1000 stub_platform_def) (simp add: js_def)
  from t 1 2 4 5 have "prefix (trace (empty_disk 100) @ [Wrote (imagePath ?P 1000),
                         Ran (command (imagePath ?P 1000) (outputPath ?P 1000))])
        (trace (snd (get_text ?P 1000 1000 ?req (empty_disk 100))))"
    by blast
  then have "prefix [Wrote (js ''uploads/image_1000.png''),
           Ran (command (js ''uploads/image_1000.png'') (js ''output/image_1000''))]
     (trace (snd (get_text ?P 1000 1000 ?req (empty_disk 100))))"
    by (simp add: stub_paths empty_disk_def)
  with a b show ?thesis by simp
qed

theorem staged_pair_counterexample:
  "trace (snd (get_text (stub_platform (js ''output/image_1001.txt'') []) 1000 1001
                 (png_request JUndefined) (empty_disk 100))) =
     [Wrote (js ''uploads/image_1000.png''),
      Ran (command (js ''uploads/image_1000.png'') (js ''output/image_1001'')),
      Unlinked (js ''uploads/image_1000.png''),
      Unlinked (js ''output/image_1001.txt'')]"
proof -
  let ?P = "stub_platform (js ''output/image_1001.txt'') []"
  have p: "js ''output/image_1001'' @ js ''.txt'' = js ''output/image_1001.txt''"
    "js ''output/image_1001'' @ js ''.tsv'' = js ''output/image_1001.tsv''"
    "js ''uploads/image_1000.png'' \<noteq> js ''output/image_1001.txt''"
    "js ''uploads/image_1000.png'' \<noteq> js ''output/image_1001.tsv''"
    "js ''output/image_1001.txt'' \<noteq> js ''output/image_1001.tsv''"
    by (simp_all add: js_def)
  show ?thesis
    by (simp add: get_text_def png_request_def png_nonempty stub_png_valid stub_png
          stub_paths stub_write stub_exec readFile_def p cleanupFiles_def
          unlink_if_exists_eq)
qed

end
